(* ===== verification/Prelude.thy ===== *)
theory Prelude
  imports Main "HOL-Library.Word" "HOL-Library.Product_Lexorder" "HOL-Library.Char_ord" "HOL-Library.List_Lexorder"
begin

text \<open>
  The parts of Rust's language and standard library that the components of git-edge share:
  byte strings, prefix and suffix stripping, splitting, decimal and hexadecimal text, fixed-width
  saturating arithmetic, fallible iteration, and association lists for the tables a repository
  keeps in SQLite. A Rust \<open>u8\<close> in text is a HOL \<open>char\<close> (an 8-bit value), so a \<open>&[u8]\<close>,
  a \<open>BString\<close> and a UTF-8 \<open>str\<close> are all a HOL \<open>string\<close>.

  The collections: \<open>rust_std\<close> gathers the defining equations of the small library wrappers
  (they are unfolded in most component proofs), \<open>tbl\<close> the lookup laws of the table operations.
\<close>

named_theorems rust_std
named_theorems tbl

type_synonym bytes = string
type_synonym byte = "8 word"

section \<open>Byte strings\<close>

abbreviation LF :: char where "LF \<equiv> CHR 0x0A"
abbreviation NUL :: char where "NUL \<equiv> CHR 0x00"

definition strip_prefix :: "'a list \<Rightarrow> 'a list \<Rightarrow> 'a list option" where
  "strip_prefix p s = (if take (length p) s = p then Some (drop (length p) s) else None)"

definition strip_suffix :: "'a list \<Rightarrow> 'a list \<Rightarrow> 'a list option" where
  "strip_suffix p s =
     (if length p \<le> length s \<and> drop (length s - length p) s = p
      then Some (take (length s - length p) s) else None)"

definition starts_with :: "'a list \<Rightarrow> 'a list \<Rightarrow> bool" where
  "starts_with p s \<longleftrightarrow> take (length p) s = p"

text \<open>\<open>slice::split\<close> and \<open>str::split\<close> on one separator: always at least one piece.\<close>

fun split_on :: "'a \<Rightarrow> 'a list \<Rightarrow> 'a list list" where
  "split_on c [] = [[]]"
| "split_on c (x # xs) =
     (if x = c then [] # split_on c xs
      else (case split_on c xs of [] \<Rightarrow> [[x]] | w # ws \<Rightarrow> (x # w) # ws))"

text \<open>\<open>str::split_once\<close>: the parts before and after the first separator.\<close>

fun split_once :: "'a \<Rightarrow> 'a list \<Rightarrow> ('a list \<times> 'a list) option" where
  "split_once c [] = None"
| "split_once c (x # xs) =
     (if x = c then Some ([], xs)
      else (case split_once c xs of None \<Rightarrow> None | Some (a, b) \<Rightarrow> Some (x # a, b)))"

lemma strip_prefix_Some_iff: "strip_prefix p s = Some r \<longleftrightarrow> s = p @ r"
  by (auto simp: strip_prefix_def) (metis append_take_drop_id)

lemma strip_prefix_None_iff: "strip_prefix p s = None \<longleftrightarrow> \<not> starts_with p s"
  by (simp add: strip_prefix_def starts_with_def)

lemma strip_prefix_append [simp]: "strip_prefix p (p @ r) = Some r"
  by (simp add: strip_prefix_def)

lemma strip_suffix_Some_iff: "strip_suffix p s = Some r \<longleftrightarrow> s = r @ p"
  by (auto simp: strip_suffix_def) (metis append_take_drop_id)

lemma strip_suffix_append [simp]: "strip_suffix p (r @ p) = Some r"
  by (simp add: strip_suffix_def)

lemma starts_with_iff: "starts_with p s \<longleftrightarrow> (\<exists>r. s = p @ r)"
  by (auto simp: starts_with_def) (metis append_take_drop_id)

lemma starts_with_append [simp]: "starts_with p (p @ r)"
  by (simp add: starts_with_def)

lemma split_on_not_Nil [simp]: "split_on c xs \<noteq> []"
  by (induction xs) (auto split: list.splits)

lemma split_on_no_sep: "c \<notin> set xs \<Longrightarrow> split_on c xs = [xs]"
  by (induction xs) auto

lemma split_on_append: "c \<notin> set xs \<Longrightarrow> split_on c (xs @ c # ys) = xs # split_on c ys"
  by (induction xs) auto

lemma split_on_pieces: "w \<in> set (split_on c xs) \<Longrightarrow> c \<notin> set w"
proof (induction xs arbitrary: w)
  case (Cons x xs)
  show ?case
  proof (cases "split_on c xs")
    case Nil
    then show ?thesis by simp
  next
    case (Cons v vs)
    with Cons.IH Cons.prems show ?thesis by (auto split: if_splits)
  qed
qed simp

lemma split_once_append [simp]: "c \<notin> set xs \<Longrightarrow> split_once c (xs @ c # ys) = Some (xs, ys)"
  by (induction xs) auto

lemma split_once_no_sep: "c \<notin> set xs \<Longrightarrow> split_once c xs = None"
  by (induction xs) auto

lemma split_once_Some: "split_once c xs = Some (a, b) \<Longrightarrow> xs = a @ c # b \<and> c \<notin> set a"
  by (induction xs arbitrary: a) (auto split: if_splits option.splits)

section \<open>Numbers as text\<close>

definition digit :: "nat \<Rightarrow> char" where
  "digit n = char_of (48 + n)"

text \<open>Lower-case hexadecimal digit, as in \<open>{:x}\<close>.\<close>

definition hex_digit :: "nat \<Rightarrow> char" where
  "hex_digit n = (if n < 10 then char_of (48 + n) else char_of (87 + n))"

definition byte_val :: "char \<Rightarrow> nat" where
  "byte_val c = of_char c"

text \<open>\<open>to_string\<close> of an unsigned and of a signed integer.\<close>

fun nat_dec :: "nat \<Rightarrow> string" where
  "nat_dec n = (if n < 10 then [digit n] else nat_dec (n div 10) @ [digit (n mod 10)])"

declare nat_dec.simps [simp del]

definition int_dec :: "int \<Rightarrow> string" where
  "int_dec i = (if i < 0 then CHR ''-'' # nat_dec (nat (- i)) else nat_dec (nat i))"

definition is_digit :: "char \<Rightarrow> bool" where
  "is_digit c \<longleftrightarrow> 48 \<le> byte_val c \<and> byte_val c \<le> 57"

fun dec_acc :: "nat \<Rightarrow> string \<Rightarrow> nat option" where
  "dec_acc acc [] = Some acc"
| "dec_acc acc (c # cs) = (if is_digit c then dec_acc (10 * acc + (byte_val c - 48)) cs else None)"

text \<open>
  \<open>str::parse\<close> into an unsigned type with maximum \<open>hi\<close>: an optional plus sign, then at least
  one decimal digit, and a value that fits.
\<close>

definition parse_unsigned :: "nat \<Rightarrow> string \<Rightarrow> nat option" where
  "parse_unsigned hi s =
     (let ds = (case s of c # cs \<Rightarrow> if c = CHR ''+'' then cs else s | [] \<Rightarrow> s)
      in if ds = [] then None
         else case dec_acc 0 ds of None \<Rightarrow> None | Some n \<Rightarrow> if n \<le> hi then Some n else None)"

definition parse_digits :: "string \<Rightarrow> nat \<Rightarrow> nat option" where
  "parse_digits ds hi = (case dec_acc 0 ds of None \<Rightarrow> None | Some n \<Rightarrow> if n \<le> hi then Some n else None)"

abbreviation "U32_MAX \<equiv> (2 ^ 32 - 1 :: nat)"
abbreviation "U64_MAX \<equiv> (2 ^ 64 - 1 :: nat)"
abbreviation "I64_MAX \<equiv> (2 ^ 63 - 1 :: int)"
abbreviation "I64_MIN \<equiv> (- (2 ^ 63) :: int)"

lemma byte_val_char_of [simp]: "n < 256 \<Longrightarrow> byte_val (char_of n) = n"
  by (simp add: byte_val_def)

lemma byte_val_less [simp]: "byte_val c < 256"
  unfolding byte_val_def by (rule nat_of_char_less_256)

lemma byte_val_inject: "byte_val a = byte_val b \<longleftrightarrow> a = b"
  by (simp add: byte_val_def)

lemma byte_val_digit [simp]: "n < 10 \<Longrightarrow> byte_val (digit n) = 48 + n"
  by (simp add: digit_def)

lemma is_digit_digit [simp]: "n < 10 \<Longrightarrow> is_digit (digit n)"
  by (simp add: is_digit_def)

lemma nat_dec_not_Nil [simp]: "nat_dec n \<noteq> []"
  by (subst nat_dec.simps) simp

lemma nat_dec_digits: "c \<in> set (nat_dec n) \<Longrightarrow> is_digit c"
proof (induction n rule: nat_dec.induct)
  case (1 n)
  then show ?case
    by (cases "n < 10") (auto simp: nat_dec.simps [of n])
qed

lemma dec_acc_append: "dec_acc a (xs @ ys) = (case dec_acc a xs of None \<Rightarrow> None | Some b \<Rightarrow> dec_acc b ys)"
  by (induction xs arbitrary: a) auto

lemma dec_acc_nat_dec [simp]: "dec_acc 0 (nat_dec n) = Some n"
proof (induction n rule: nat_dec.induct)
  case (1 n)
  show ?case
  proof (cases "n < 10")
    case True
    then show ?thesis by (simp add: nat_dec.simps [of n])
  next
    case False
    with 1 have "dec_acc 0 (nat_dec (n div 10)) = Some (n div 10)" by simp
    with False show ?thesis by (simp add: nat_dec.simps [of n] dec_acc_append)
  qed
qed

lemma hd_nat_dec: "is_digit (hd (nat_dec n))"
  by (rule nat_dec_digits) (rule hd_in_set, simp)

lemma is_digit_special [simp]:
  "\<not> is_digit (CHR ''+'')" "\<not> is_digit (CHR ''-'')" "\<not> is_digit LF" "\<not> is_digit (CHR ''/'')"
  "\<not> is_digit (CHR '' '')"
  by (simp_all add: is_digit_def byte_val_def)

lemma parse_unsigned_nat_dec: "n \<le> hi \<Longrightarrow> parse_unsigned hi (nat_dec n) = Some n"
proof (cases "nat_dec n")
  case (Cons c cs)
  moreover have "c \<noteq> CHR ''+''" using hd_nat_dec [of n] Cons by auto
  moreover have "dec_acc 0 (c # cs) = Some n" using dec_acc_nat_dec [of n] unfolding Cons .
  ultimately show "n \<le> hi \<Longrightarrow> parse_unsigned hi (nat_dec n) = Some n"
    by (simp add: parse_unsigned_def Let_def del: dec_acc.simps)
qed simp

text \<open>
  \<open>str::parse::<i64>\<close>: an optional sign, at least one digit, a value in range. A cast of text to
  an integer in SQL reads the longest such prefix and counts a missing one as zero.
\<close>

definition parse_i64 :: "string \<Rightarrow> int option" where
  "parse_i64 s =
     (case s of
        c # cs \<Rightarrow>
          if c = CHR ''-'' then map_option (\<lambda>n. - int n) (if cs = [] then None else parse_digits cs (2 ^ 63))
          else if c = CHR ''+'' then map_option int (if cs = [] then None else parse_digits cs (2 ^ 63 - 1))
          else map_option int (parse_digits s (2 ^ 63 - 1))
      | [] \<Rightarrow> None)"

definition sql_int :: "string \<Rightarrow> int" where
  "sql_int s =
     (case s of
        c # cs \<Rightarrow>
          if c = CHR ''-'' then - int (the (dec_acc 0 (takeWhile is_digit cs)))
          else if c = CHR ''+'' then int (the (dec_acc 0 (takeWhile is_digit cs)))
          else int (the (dec_acc 0 (takeWhile is_digit s)))
      | [] \<Rightarrow> 0)"

lemma nat_dec_sign:
  "nat_dec n = c # cs \<Longrightarrow> c \<noteq> CHR ''-'' \<and> c \<noteq> CHR ''+''"
  using hd_nat_dec [of n] by auto

lemma parse_i64_int_dec:
  assumes "I64_MIN \<le> i" and "i \<le> I64_MAX"
  shows "parse_i64 (int_dec i) = Some i"
proof (cases "i < 0")
  case True
  with assms show ?thesis
    by (simp add: parse_i64_def int_dec_def parse_digits_def)
next
  case False
  obtain c cs where d: "nat_dec (nat i) = c # cs" by (cases "nat_dec (nat i)") auto
  moreover have "dec_acc 0 (c # cs) = Some (nat i)" using dec_acc_nat_dec [of "nat i"] d by simp
  ultimately show ?thesis
    using False assms nat_dec_sign [OF d]
    by (simp add: parse_i64_def int_dec_def parse_digits_def nat_le_iff del: dec_acc.simps)
qed

lemma takeWhile_nat_dec [simp]: "takeWhile is_digit (nat_dec n) = nat_dec n"
  using nat_dec_digits by (simp add: takeWhile_eq_all_conv)

lemma sql_int_int_dec [simp]: "sql_int (int_dec i) = i"
proof (cases "i < 0")
  case True
  then show ?thesis by (simp add: sql_int_def int_dec_def)
next
  case False
  obtain c cs where d: "nat_dec (nat i) = c # cs" by (cases "nat_dec (nat i)") auto
  then have "dec_acc 0 (takeWhile is_digit (c # cs)) = Some (nat i)"
    using takeWhile_nat_dec [of "nat i"] dec_acc_nat_dec [of "nat i"] by metis
  with d False show ?thesis
    using nat_dec_sign [OF d] by (simp add: sql_int_def int_dec_def del: takeWhile.simps)
qed

section \<open>Hexadecimal text\<close>

text \<open>\<open>{:02x}\<close> of a byte, and its inverse \<open>u8::from_str_radix(_, 16)\<close>.\<close>

definition hex2 :: "byte \<Rightarrow> string" where
  "hex2 b = [hex_digit (unat b div 16), hex_digit (unat b mod 16)]"

definition hex_val :: "char \<Rightarrow> nat option" where
  "hex_val c = (let n = byte_val c in
     if 48 \<le> n \<and> n \<le> 57 then Some (n - 48)
     else if 97 \<le> n \<and> n \<le> 102 then Some (n - 87)
     else if 65 \<le> n \<and> n \<le> 70 then Some (n - 55)
     else None)"

fun hex_acc :: "nat \<Rightarrow> string \<Rightarrow> nat option" where
  "hex_acc acc [] = Some acc"
| "hex_acc acc (c # cs) = (case hex_val c of None \<Rightarrow> None | Some d \<Rightarrow> hex_acc (16 * acc + d) cs)"

text \<open>
  Rust's integer parser accepts one leading plus sign before the digits, in every radix.
\<close>

definition u8_from_radix16 :: "string \<Rightarrow> byte option" where
  "u8_from_radix16 s =
     (let ds = (case s of c # cs \<Rightarrow> if c = CHR ''+'' \<and> cs \<noteq> [] then cs else s | [] \<Rightarrow> s)
      in if ds = [] then None
         else case hex_acc 0 ds of None \<Rightarrow> None | Some n \<Rightarrow> if n < 256 then Some (of_nat n) else None)"

lemma byte_val_hex_digit: "n < 16 \<Longrightarrow> byte_val (hex_digit n) = (if n < 10 then 48 + n else 87 + n)"
  by (simp add: hex_digit_def)

lemma hex_val_hex_digit [simp]: "n < 16 \<Longrightarrow> hex_val (hex_digit n) = Some n"
  by (auto simp: hex_val_def Let_def byte_val_hex_digit)

lemma hex_digit_not_plus [simp]: "n < 16 \<Longrightarrow> hex_digit n \<noteq> CHR ''+''"
  using byte_val_hex_digit [of n] by (auto simp: byte_val_def split: if_splits)

lemma unat_byte_less [simp]: "unat (b :: byte) < 256"
  using unsigned_less [of b, where 'a = nat] by simp

lemma u8_from_radix16_hex2 [simp]: "u8_from_radix16 (hex2 b) = Some b"
proof -
  have "unat b div 16 < 16" using unat_byte_less [of b] by (simp add: less_mult_imp_div_less)
  then show ?thesis
    by (simp add: hex2_def u8_from_radix16_def Let_def mult.commute)
qed

text \<open>\<open>{:x}\<close> of a number, and \<open>{:04x}\<close>: padded with zeros to four digits.\<close>

fun hex_nat :: "nat \<Rightarrow> string" where
  "hex_nat n = (if n < 16 then [hex_digit n] else hex_nat (n div 16) @ [hex_digit (n mod 16)])"

declare hex_nat.simps [simp del]

definition hex_pad4 :: "nat \<Rightarrow> string" where
  "hex_pad4 n = replicate (4 - length (hex_nat n)) (CHR ''0'') @ hex_nat n"

lemma hex_acc_append:
  "hex_acc a (xs @ ys) = (case hex_acc a xs of None \<Rightarrow> None | Some b \<Rightarrow> hex_acc b ys)"
  by (induction xs arbitrary: a) (auto split: option.splits)

lemma hex_acc_hex_nat [simp]: "hex_acc 0 (hex_nat n) = Some n"
proof (induction n rule: hex_nat.induct)
  case (1 n)
  show ?case
  proof (cases "n < 16")
    case True
    then show ?thesis by (simp add: hex_nat.simps [of n])
  next
    case False
    with 1 have "hex_acc 0 (hex_nat (n div 16)) = Some (n div 16)" by simp
    with False show ?thesis by (simp add: hex_nat.simps [of n] hex_acc_append)
  qed
qed

lemma length_hex_nat: "n < 16 ^ Suc k \<Longrightarrow> length (hex_nat n) \<le> Suc k"
proof (induction k arbitrary: n)
  case 0
  then show ?case by (simp add: hex_nat.simps [of n])
next
  case (Suc k)
  then have "n div 16 < 16 ^ Suc k" by (simp add: less_mult_imp_div_less)
  with Suc.IH show ?case by (cases "n < 16") (auto simp: hex_nat.simps [of n])
qed

lemma hex_acc_zeros: "hex_acc 0 (replicate k (CHR ''0'') @ s) = hex_acc 0 s"
  by (induction k) (auto simp: hex_val_def byte_val_def)

lemma hex_acc_hex_pad4 [simp]: "hex_acc 0 (hex_pad4 n) = Some n"
  by (simp add: hex_pad4_def hex_acc_zeros)

lemma length_hex_pad4 [simp]: "n < 65536 \<Longrightarrow> length (hex_pad4 n) = 4"
  using length_hex_nat [of n 3] by (simp add: hex_pad4_def)

section \<open>Trimming\<close>

text \<open>
  \<open>str::trim\<close> removes the characters with the Unicode White_Space property at both ends; they are
  listed here as UTF-8. \<open>trim_with\<close> strips any of the given non-empty prefixes as long as one
  matches.
\<close>

definition white_space :: "string list" where
  "white_space =
     [[CHR 0x09], [CHR 0x0A], [CHR 0x0B], [CHR 0x0C], [CHR 0x0D], [CHR 0x20],
      [CHR 0xC2, CHR 0x85], [CHR 0xC2, CHR 0xA0], [CHR 0xE1, CHR 0x9A, CHR 0x80],
      [CHR 0xE2, CHR 0x80, CHR 0x80], [CHR 0xE2, CHR 0x80, CHR 0x81], [CHR 0xE2, CHR 0x80, CHR 0x82],
      [CHR 0xE2, CHR 0x80, CHR 0x83], [CHR 0xE2, CHR 0x80, CHR 0x84], [CHR 0xE2, CHR 0x80, CHR 0x85],
      [CHR 0xE2, CHR 0x80, CHR 0x86], [CHR 0xE2, CHR 0x80, CHR 0x87], [CHR 0xE2, CHR 0x80, CHR 0x88],
      [CHR 0xE2, CHR 0x80, CHR 0x89], [CHR 0xE2, CHR 0x80, CHR 0x8A], [CHR 0xE2, CHR 0x80, CHR 0xA8],
      [CHR 0xE2, CHR 0x80, CHR 0xA9], [CHR 0xE2, CHR 0x80, CHR 0xAF], [CHR 0xE2, CHR 0x81, CHR 0x9F],
      [CHR 0xE3, CHR 0x80, CHR 0x80]]"

function trim_with :: "'a list list \<Rightarrow> 'a list \<Rightarrow> 'a list" where
  "trim_with ws s =
     (case find (\<lambda>w. w \<noteq> [] \<and> starts_with w s) ws of
        None \<Rightarrow> s
      | Some w \<Rightarrow> trim_with ws (drop (length w) s))"
  by pat_completeness auto
termination
proof (relation "measure (\<lambda>(ws, s). length s)", simp)
  fix ws :: "'a list list" and s w
  assume "find (\<lambda>w. w \<noteq> [] \<and> starts_with w s) ws = Some w"
  then have "w \<noteq> []" "starts_with w s" by (auto simp: find_Some_iff)
  then show "((ws, drop (length w) s), ws, s) \<in> measure (\<lambda>(ws, s). length s)"
    by (cases s) (auto simp: starts_with_def)
qed

declare trim_with.simps [simp del]

definition trim_end :: "string \<Rightarrow> string" where
  "trim_end s = rev (trim_with (map rev white_space) (rev s))"

definition trim :: "string \<Rightarrow> string" where
  "trim s = trim_end (trim_with white_space s)"

lemma trim_with_fixed: "trim_with ws s = s \<longleftrightarrow> (\<forall>w \<in> set ws. w \<noteq> [] \<longrightarrow> \<not> starts_with w s)"
proof (cases "find (\<lambda>w. w \<noteq> [] \<and> starts_with w s) ws")
  case None
  then have "trim_with ws s = s" by (simp add: trim_with.simps [of ws s])
  with None show ?thesis by (auto simp: find_None_iff)
next
  case (Some w)
  have "length (trim_with ws t) \<le> length t" for t
    by (induction ws t rule: trim_with.induct)
      (subst trim_with.simps, auto split: option.splits simp: le_diff_conv trans_le_add1)
  moreover have "trim_with ws s = trim_with ws (drop (length w) s)"
    using Some by (simp add: trim_with.simps [of ws s])
  ultimately have "length (trim_with ws s) \<le> length s - length w"
    by (metis length_drop)
  moreover have "w \<noteq> []" "starts_with w s" using Some by (auto simp: find_Some_iff)
  ultimately have "length (trim_with ws s) < length s"
    by (cases s; cases w) (auto simp: starts_with_def)
  then have "trim_with ws s \<noteq> s" by auto
  with Some show ?thesis by (auto simp: find_Some_iff)
qed

lemma trim_with_result: "trim_with ws (trim_with ws s) = trim_with ws s"
proof (induction ws s rule: trim_with.induct)
  case (1 ws s)
  show ?case
  proof (cases "find (\<lambda>w. w \<noteq> [] \<and> starts_with w s) ws")
    case None
    then show ?thesis by (simp add: trim_with.simps [of ws s])
  next
    case (Some w)
    with 1 show ?thesis by (simp add: trim_with.simps [of ws s])
  qed
qed

lemma trim_with_suffix: "\<exists>r. s = r @ trim_with ws s"
proof (induction ws s rule: trim_with.induct)
  case (1 ws s)
  show ?case
  proof (cases "find (\<lambda>w. w \<noteq> [] \<and> starts_with w s) ws")
    case None
    then show ?thesis by (simp add: trim_with.simps [of ws s])
  next
    case (Some w)
    with 1 obtain r where "drop (length w) s = r @ trim_with ws (drop (length w) s)" by blast
    then have "s = (take (length w) s @ r) @ trim_with ws (drop (length w) s)"
      by (metis append.assoc append_take_drop_id)
    moreover have "trim_with ws s = trim_with ws (drop (length w) s)"
      using Some by (simp add: trim_with.simps [of ws s])
    ultimately show ?thesis by metis
  qed
qed

lemma trim_end_prefix: "\<exists>r. s = trim_end s @ r"
  unfolding trim_end_def using trim_with_suffix [of "rev s" "map rev white_space"]
  by (metis rev_append rev_rev_ident)

lemma trim_idem [simp]: "trim (trim s) = trim s"
proof -
  let ?u = "trim_with white_space s"
  have "trim_with white_space (trim_end ?u) = trim_end ?u"
  proof -
    obtain r where r: "?u = trim_end ?u @ r" using trim_end_prefix by blast
    have "starts_with w ?u" if "starts_with w (trim_end ?u)" for w
      using that r by (metis append.assoc starts_with_iff)
    then show ?thesis
      using trim_with_result [of white_space s] by (auto simp: trim_with_fixed)
  qed
  moreover have "trim_end (trim_end ?u) = trim_end ?u"
    by (simp add: trim_end_def trim_with_result)
  ultimately show ?thesis by (simp add: trim_def)
qed

lemma trim_Nil [simp]: "trim [] = []"
proof -
  have "trim_with ws [] = []" for ws :: "string list"
    by (auto simp: trim_with_fixed starts_with_def)
  then show ?thesis by (simp add: trim_def trim_end_def)
qed

text \<open>\<open>map(str::trim).filter(|s| !s.is_empty())\<close> on an optional string.\<close>

definition trimmed :: "string option \<Rightarrow> string option" where
  "trimmed s = (case s of None \<Rightarrow> None | Some t \<Rightarrow> if trim t = [] then None else Some (trim t))"

section \<open>Fixed-width saturating arithmetic\<close>

definition sat32 :: "nat \<Rightarrow> nat" where [rust_std]: "sat32 n = min n U32_MAX"
definition sat64 :: "nat \<Rightarrow> nat" where [rust_std]: "sat64 n = min n U64_MAX"

text \<open>\<open>i64::saturating_*\<close>: clamp to the type's range.\<close>

definition sat_i64 :: "int \<Rightarrow> int" where [rust_std]: "sat_i64 i = max I64_MIN (min i I64_MAX)"

lemma sat32_le [simp]: "sat32 n \<le> n" "sat32 n \<le> U32_MAX"
  by (simp_all add: sat32_def)

lemma sat64_le [simp]: "sat64 n \<le> n" "sat64 n \<le> U64_MAX"
  by (simp_all add: sat64_def)

lemma sat64_id: "n \<le> U64_MAX \<Longrightarrow> sat64 n = n"
  by (simp add: sat64_def)

lemma sat_i64_id: "I64_MIN \<le> i \<Longrightarrow> i \<le> I64_MAX \<Longrightarrow> sat_i64 i = i"
  by (simp add: sat_i64_def)

section \<open>Fallible iteration\<close>

text \<open>\<open>iter.map(f).collect::<Result<Vec<_>, E>>()\<close>: the first error wins.\<close>

fun traverse :: "('a \<Rightarrow> 'e + 'b) \<Rightarrow> 'a list \<Rightarrow> 'e + 'b list" where
  "traverse f [] = Inr []"
| "traverse f (x # xs) =
     (case f x of Inl e \<Rightarrow> Inl e
      | Inr y \<Rightarrow> (case traverse f xs of Inl e \<Rightarrow> Inl e | Inr ys \<Rightarrow> Inr (y # ys)))"

lemma traverse_Inr_iff: "traverse f xs = Inr ys \<longleftrightarrow> list_all2 (\<lambda>x y. f x = Inr y) xs ys"
proof (induction xs arbitrary: ys)
  case (Cons x xs)
  show ?case
    by (cases "f x"; cases "traverse f xs"; cases ys) (auto simp: Cons.IH [symmetric])
qed auto

section \<open>Tables keyed by a primary key\<close>

text \<open>
  A table is an association list with distinct keys. \<open>tbl_put\<close> is an upsert, \<open>tbl_del\<close> a
  delete by key; \<open>map_of\<close> reads the row of a key.
\<close>

fun tbl_put :: "'k \<Rightarrow> 'v \<Rightarrow> ('k \<times> 'v) list \<Rightarrow> ('k \<times> 'v) list" where
  "tbl_put k v [] = [(k, v)]"
| "tbl_put k v (p # ps) = (if fst p = k then (k, v) # ps else p # tbl_put k v ps)"

definition tbl_del :: "'k \<Rightarrow> ('k \<times> 'v) list \<Rightarrow> ('k \<times> 'v) list" where
  "tbl_del k t = filter (\<lambda>p. fst p \<noteq> k) t"

definition tbl_ok :: "('k \<times> 'v) list \<Rightarrow> bool" where
  "tbl_ok t \<longleftrightarrow> distinct (map fst t)"

lemma map_of_tbl_put [tbl, simp]: "map_of (tbl_put k v t) = (map_of t)(k \<mapsto> v)"
  by (induction t) auto

lemma map_of_tbl_del [tbl, simp]: "map_of (tbl_del k t) = (map_of t)(k := None)"
  by (induction t) (auto simp: tbl_del_def)

lemma keys_tbl_put: "fst ` set (tbl_put k v t) = insert k (fst ` set t)"
  by (induction t) auto

lemma tbl_ok_put [tbl, intro]: "tbl_ok t \<Longrightarrow> tbl_ok (tbl_put k v t)"
proof (induction t)
  case (Cons p ps)
  then show ?case
    using keys_tbl_put [of k v ps] by (auto simp: tbl_ok_def image_iff)
qed (simp add: tbl_ok_def)

lemma length_tbl_put: "length (tbl_put k v t) \<le> Suc (length t)"
  by (induction t) auto

lemma length_tbl_del: "length (tbl_del k t) \<le> length t"
  by (simp add: tbl_del_def)

lemma tbl_ok_del [tbl, intro]: "tbl_ok t \<Longrightarrow> tbl_ok (tbl_del k t)"
  by (auto simp: tbl_ok_def tbl_del_def distinct_map_filter)

lemma tbl_ok_Nil [tbl, simp]: "tbl_ok []"
  by (simp add: tbl_ok_def)

lemma length_tbl_put_new: "map_of t k = None \<Longrightarrow> length (tbl_put k v t) = Suc (length t)"
  by (induction t) (auto split: if_splits)

lemma length_tbl_put_old: "map_of t k \<noteq> None \<Longrightarrow> length (tbl_put k v t) = length t"
  by (induction t) (auto split: if_splits)

text \<open>
  \<open>UPDATE .. SET f WHERE P\<close> and \<open>DELETE .. WHERE P\<close>; \<open>tbl_count P\<close> is both \<open>SELECT COUNT(*)\<close> and
  the number of rows such a statement reports through \<open>changes()\<close>.
\<close>

definition tbl_update :: "('k \<Rightarrow> 'v \<Rightarrow> bool) \<Rightarrow> ('v \<Rightarrow> 'v) \<Rightarrow> ('k \<times> 'v) list \<Rightarrow> ('k \<times> 'v) list" where
  "tbl_update P f t = map (\<lambda>(k, v). (k, if P k v then f v else v)) t"

definition tbl_delete :: "('k \<Rightarrow> 'v \<Rightarrow> bool) \<Rightarrow> ('k \<times> 'v) list \<Rightarrow> ('k \<times> 'v) list" where
  "tbl_delete P t = filter (\<lambda>(k, v). \<not> P k v) t"

definition tbl_count :: "('k \<Rightarrow> 'v \<Rightarrow> bool) \<Rightarrow> ('k \<times> 'v) list \<Rightarrow> nat" where
  "tbl_count P t = length (filter (\<lambda>(k, v). P k v) t)"

lemma map_fst_tbl_update [tbl, simp]: "map fst (tbl_update P f t) = map fst t"
  by (auto simp: tbl_update_def)

lemma length_tbl_update [tbl, simp]: "length (tbl_update P f t) = length t"
  by (simp add: tbl_update_def)

lemma tbl_ok_update [tbl, simp]: "tbl_ok (tbl_update P f t) \<longleftrightarrow> tbl_ok t"
  by (simp add: tbl_ok_def)

lemma map_of_tbl_update [tbl]:
  "map_of (tbl_update P f t) k = (case map_of t k of None \<Rightarrow> None | Some v \<Rightarrow> Some (if P k v then f v else v))"
  by (induction t) (auto simp: tbl_update_def)

lemma set_tbl_update:
  "(k, w) \<in> set (tbl_update P f t) \<longleftrightarrow> (\<exists>v. (k, v) \<in> set t \<and> w = (if P k v then f v else v))"
  by (force simp: tbl_update_def)

lemma length_tbl_put_count:
  "tbl_ok t \<Longrightarrow> length (tbl_put k v t) = Suc (tbl_count (\<lambda>j _. j \<noteq> k) t)"
proof (induction t)
  case Nil
  then show ?case by (simp add: tbl_count_def)
next
  case (Cons p ps)
  then have ok: "tbl_ok ps" "\<And>x. x \<in> set ps \<Longrightarrow> fst x \<noteq> fst p" by (auto simp: tbl_ok_def rev_image_eqI)
  show ?case
  proof (cases "fst p = k")
    case True
    with ok(2) have "filter (\<lambda>(j, _). j \<noteq> k) ps = ps" by (intro filter_True) (force split: prod.split)
    with True show ?thesis by (cases p) (simp add: tbl_count_def)
  next
    case False
    with Cons.IH ok(1) show ?thesis by (cases p) (simp add: tbl_count_def)
  qed
qed

lemma length_tbl_del_le: "length t \<le> n \<Longrightarrow> length (tbl_del k t) \<le> n"
  by (rule le_trans [OF length_tbl_del])

lemma tbl_update_none: "tbl_count P t = 0 \<Longrightarrow> tbl_update P f t = t"
  by (induction t) (auto simp: tbl_update_def tbl_count_def split: if_splits)

lemma tbl_ok_delete [tbl, intro]: "tbl_ok t \<Longrightarrow> tbl_ok (tbl_delete P t)"
  by (simp add: tbl_ok_def tbl_delete_def distinct_map_filter)

lemma set_tbl_delete: "(k, v) \<in> set (tbl_delete P t) \<longleftrightarrow> (k, v) \<in> set t \<and> \<not> P k v"
  by (auto simp: tbl_delete_def)

lemma tbl_delete_none: "tbl_count P t = 0 \<Longrightarrow> tbl_delete P t = t"
  by (induction t) (auto simp: tbl_delete_def tbl_count_def split: if_splits)

lemma map_of_tbl_delete [tbl]:
  "tbl_ok t \<Longrightarrow>
     map_of (tbl_delete P t) k = (case map_of t k of None \<Rightarrow> None | Some v \<Rightarrow> if P k v then None else Some v)"
  by (induction t) (auto simp: tbl_delete_def tbl_ok_def split: option.splits dest: map_of_SomeD
      intro: image_eqI [where x = "(_, _)"])

lemma key_in: "(k, v) \<in> set t \<Longrightarrow> k \<in> fst ` set t"
  by force

lemma tbl_count_key:
  "tbl_ok t \<Longrightarrow> tbl_count (\<lambda>j v. j = k \<and> Q v) t = (case map_of t k of Some v \<Rightarrow> if Q v then 1 else 0 | None \<Rightarrow> 0)"
proof (induction t)
  case (Cons p t)
  then show ?case
    by (cases p) (auto simp: tbl_count_def tbl_ok_def map_of_eq_None_iff filter_empty_conv
        split: option.splits dest: map_of_SomeD key_in)
qed (simp add: tbl_count_def)

lemma tbl_count_pos: "0 < tbl_count P t \<longleftrightarrow> (\<exists>(k, v) \<in> set t. P k v)"
  by (auto simp: tbl_count_def filter_empty_conv)

section \<open>Ordered selection\<close>

text \<open>\<open>SELECT .. ORDER BY f LIMIT 1\<close>: the first row of least key.\<close>

fun min_by :: "('a \<Rightarrow> 'k :: linorder) \<Rightarrow> 'a list \<Rightarrow> 'a option" where
  "min_by f [] = None"
| "min_by f (x # xs) = (case min_by f xs of None \<Rightarrow> Some x | Some y \<Rightarrow> if f x \<le> f y then Some x else Some y)"

lemma min_by_None [simp]: "min_by f xs = None \<longleftrightarrow> xs = []"
  by (cases xs) (auto split: option.splits)

lemma min_by_Some: "min_by f xs = Some x \<Longrightarrow> x \<in> set xs \<and> (\<forall>y \<in> set xs. f x \<le> f y)"
  by (induction xs arbitrary: x) (auto split: option.splits if_splits intro: order_trans dest: order.trans)

lemma min_by_ex: "xs \<noteq> [] \<Longrightarrow> \<exists>x. min_by f xs = Some x"
  by (metis min_by_None not_None_eq)

end
