(* ===== verification/Errors.thy ===== *)
theory Errors
  imports Prelude
begin

text \<open>
  \<open>server/src/error.rs\<close>: the one error type of the crate, its metric class, its message, the
  sanitised form a client sees and its HTTP status.
\<close>

section \<open>The error type\<close>

datatype error =
    Protocol string
  | Auth
  | Forbidden
  | NotFound
  | Conflict string
  | Unpack string
  | Budget
  | Limit string
  | Gone
  | RateLimit nat
  | Busy nat
  | Storage string
  | Internal string

type_synonym 'a res = "error + 'a"

text \<open>\<open>Error::class\<close>: the variant name, never the message.\<close>

primrec error_class :: "error \<Rightarrow> string" where
  "error_class (Protocol _) = ''protocol''"
| "error_class Auth = ''auth''"
| "error_class Forbidden = ''forbidden''"
| "error_class NotFound = ''notfound''"
| "error_class (Conflict _) = ''conflict''"
| "error_class (Unpack _) = ''unpack''"
| "error_class Budget = ''budget''"
| "error_class (Limit _) = ''limit''"
| "error_class (Storage _) = ''storage''"
| "error_class Gone = ''gone''"
| "error_class (RateLimit _) = ''ratelimit''"
| "error_class (Busy _) = ''busy''"
| "error_class (Internal _) = ''internal''"

primrec message :: "error \<Rightarrow> string" where
  "message (Protocol m) = m"
| "message (Unpack m) = m"
| "message (Limit m) = m"
| "message (Storage m) = m"
| "message (Internal m) = m"
| "message (Conflict m) = m"
| "message Auth = ''authentication required''"
| "message Forbidden = ''forbidden''"
| "message NotFound = ''not found''"
| "message Budget = ''request budget exhausted''"
| "message Gone = ''repository deleted''"
| "message (RateLimit s) = ''rate limit exceeded, retry in '' @ nat_dec s @ ''s''"
| "message (Busy s) = ''server busy, retry in '' @ nat_dec s @ ''s''"

text \<open>\<open>Display\<close>: the form logs and job rows record.\<close>

primrec display :: "error \<Rightarrow> string" where
  "display (Protocol m) = ''protocol error: '' @ m"
| "display Auth = ''authentication required''"
| "display Forbidden = ''forbidden''"
| "display NotFound = ''not found''"
| "display (Conflict m) = ''conflict: '' @ m"
| "display (Unpack m) = ''unpack failed: '' @ m"
| "display Budget = ''request budget exhausted''"
| "display (Limit m) = ''limit exceeded: '' @ m"
| "display Gone = ''repository deleted''"
| "display (RateLimit s) = ''rate limited, retry in '' @ nat_dec s @ ''s''"
| "display (Busy s) = ''server busy, retry in '' @ nat_dec s @ ''s''"
| "display (Storage m) = ''storage error: '' @ m"
| "display (Internal m) = ''internal error: '' @ m"

text \<open>
  \<open>str::chars\<close>: a UTF-8 string split into its scalar values, each kept as its bytes. A byte
  \<open>10xxxxxx\<close> continues the character before it.
\<close>

definition is_continuation :: "char \<Rightarrow> bool" where
  "is_continuation c \<longleftrightarrow> 128 \<le> byte_val c \<and> byte_val c < 192"

function utf8_chars :: "string \<Rightarrow> string list" where
  "utf8_chars [] = []"
| "utf8_chars (b # bs) = (b # takeWhile is_continuation bs) # utf8_chars (dropWhile is_continuation bs)"
  by pat_completeness auto
termination
  by (relation "measure length") (auto simp: less_Suc_eq_le length_dropWhile_le)

declare utf8_chars.simps [simp del]

definition is_ascii_graphic :: "char \<Rightarrow> bool" where
  "is_ascii_graphic c \<longleftrightarrow> 33 \<le> byte_val c \<and> byte_val c \<le> 126"

text \<open>One character of a client message: graphic ASCII and space pass, everything else is a question mark.\<close>

definition clean_char :: "string \<Rightarrow> char" where
  "clean_char g = (case g of [c] \<Rightarrow> if is_ascii_graphic c \<or> c = CHR '' '' then c else CHR ''?'' | _ \<Rightarrow> CHR ''?'')"

definition client_message :: "error \<Rightarrow> string" where
  "client_message e =
     (let m = (case e of Storage _ \<Rightarrow> ''internal error'' | Internal _ \<Rightarrow> ''internal error'' | _ \<Rightarrow> message e)
      in map clean_char (take 512 (utf8_chars m)))"

primrec status :: "error \<Rightarrow> nat" where
  "status (Protocol _) = 400"
| "status Auth = 401"
| "status Forbidden = 403"
| "status NotFound = 404"
| "status Gone = 410"
| "status (Conflict _) = 409"
| "status Budget = 413"
| "status (Limit _) = 413"
| "status (RateLimit _) = 429"
| "status (Busy _) = 503"
| "status (Unpack _) = 500"
| "status (Storage _) = 500"
| "status (Internal _) = 500"

text \<open>The errors after which the platform discards the writes of the request's synchronous span.\<close>

definition is_fatal :: "error \<Rightarrow> bool" where
  "is_fatal e \<longleftrightarrow> (case e of Storage _ \<Rightarrow> True | Internal _ \<Rightarrow> True | _ \<Rightarrow> False)"

section \<open>What a client can be shown\<close>

definition printable :: "char \<Rightarrow> bool" where
  "printable c \<longleftrightarrow> 32 \<le> byte_val c \<and> byte_val c \<le> 126"

lemma printable_clean_char [simp]: "printable (clean_char g)"
  by (auto simp: clean_char_def printable_def is_ascii_graphic_def byte_val_def split: list.splits)

lemma client_message_printable: "c \<in> set (client_message e) \<Longrightarrow> printable c"
  by (auto simp: client_message_def Let_def)

lemma client_message_length: "length (client_message e) \<le> 512"
  by (simp add: client_message_def Let_def)

lemma client_message_fatal: "is_fatal e \<Longrightarrow> client_message e = ''internal error''"
proof -
  have "map clean_char (take 512 (utf8_chars ''internal error'')) = ''internal error''"
    by code_simp
  then show "is_fatal e \<Longrightarrow> client_message e = ''internal error''"
    by (cases e) (simp_all add: is_fatal_def client_message_def)
qed

lemma is_fatal_simps [simp]:
  "is_fatal (Storage m)" "is_fatal (Internal m)" "\<not> is_fatal (Conflict m)" "\<not> is_fatal (Limit m)"
  "\<not> is_fatal (Protocol m)" "\<not> is_fatal Auth" "\<not> is_fatal Forbidden" "\<not> is_fatal (Busy n)"
  "\<not> is_fatal (RateLimit n)" "\<not> is_fatal Gone" "\<not> is_fatal NotFound" "\<not> is_fatal Budget"
  "\<not> is_fatal (Unpack m)"
  by (simp_all add: is_fatal_def)

end
