(* ===== verification/Budgets.thy ===== *)
theory Budgets
  imports Errors
begin

text \<open>
  \<open>server/src/lib.rs\<close>: the per-request budget. Every R2 and stub call charges it before it
  runs. A charge is mirrored into a request-wide tally shared by all budgets of the request;
  the tally is threaded beside the budget, and \<open>reports\<close> says whether this budget has it as its
  sink. Times are milliseconds read from the clock by the caller (the argument \<open>now\<close>).
\<close>

record req_budget =
  max_subrequests :: nat
  used :: nat
  started_ms :: int
  max_ms :: int
  reports :: bool

definition PAID_SUBREQUESTS :: nat where
  "PAID_SUBREQUESTS = 9000"

definition paid :: "int \<Rightarrow> req_budget" where
  "paid now = \<lparr>max_subrequests = PAID_SUBREQUESTS, used = 0, started_ms = now, max_ms = 240000, reports = False\<rparr>"

definition reporting :: "req_budget \<Rightarrow> req_budget" where
  "reporting b = b\<lparr>reports := True\<rparr>"

text \<open>\<open>report\<close>: count \<open>n\<close> in the tally only.\<close>

definition report :: "req_budget \<Rightarrow> nat \<Rightarrow> nat \<Rightarrow> nat" where
  "report b n tally = (if reports b then sat32 (tally + n) else tally)"

definition charge :: "int \<Rightarrow> nat \<Rightarrow> req_budget \<Rightarrow> nat \<Rightarrow> req_budget \<times> nat \<times> unit res" where
  "charge now n b tally =
     (let b' = b\<lparr>used := sat32 (used b + n)\<rparr>;
          tally' = report b' n tally
      in (b', tally',
          if used b' > max_subrequests b' \<or> now - started_ms b' > max_ms b' then Inl Budget else Inr ()))"

text \<open>A run of charges, each at its own time, that stops at the first refusal.\<close>

fun charges :: "(int \<times> nat) list \<Rightarrow> req_budget \<Rightarrow> nat \<Rightarrow> req_budget \<times> nat \<times> unit res" where
  "charges [] b tally = (b, tally, Inr ())"
| "charges ((now, n) # cs) b tally =
     (case charge now n b tally of
        (b', tally', Inl e) \<Rightarrow> (b', tally', Inl e)
      | (b', tally', Inr _) \<Rightarrow> charges cs b' tally')"

definition spent :: "(int \<times> nat) list \<Rightarrow> nat" where
  "spent cs = sum_list (map snd cs)"

lemma charge_ok:
  assumes "charge now n b tally = (b', tally', Inr u)" and "max_subrequests b < U32_MAX"
  shows "used b' = used b + n" and "used b' \<le> max_subrequests b"
    and "max_subrequests b' = max_subrequests b" and "now - started_ms b \<le> max_ms b"
    and "b' = b\<lparr>used := used b + n\<rparr>"
  using assms by (auto simp: charge_def Let_def sat32_def split: if_splits)

lemma charges_ok:
  "charges cs b tally = (b', tally', Inr u) \<Longrightarrow> max_subrequests b < U32_MAX \<Longrightarrow>
     used b \<le> max_subrequests b \<Longrightarrow>
     used b' = used b + spent cs \<and> used b' \<le> max_subrequests b \<and> max_subrequests b' = max_subrequests b"
proof (induction cs arbitrary: b tally)
  case (Cons c cs)
  obtain now n where c: "c = (now, n)" by (cases c)
  show ?case
  proof (cases "charge now n b tally")
    case (fields b1 t1 r)
    with Cons.prems c obtain v where r: "r = Inr v" by (cases r) auto
    note ok = charge_ok [OF fields [unfolded r] Cons.prems(2)]
    from Cons.prems(1) c fields r have "charges cs b1 t1 = (b', tally', Inr u)" by simp
    from Cons.IH [OF this] ok Cons.prems(2,3) show ?thesis
      by (simp add: c spent_def)
  qed
qed (simp add: spent_def)

text \<open>
  The charges of a slice or a request that were admitted never exceed the ceiling: a request on
  the paid plan makes at most 9000 subrequests, whatever the interleaving of its reads.
\<close>

lemma paid_charges_bounded:
  assumes "charges cs (paid t0) tally = (b', tally', Inr u)"
  shows "spent cs \<le> 9000 \<and> used b' = spent cs"
  using charges_ok [OF assms] by (simp add: paid_def PAID_SUBREQUESTS_def)

end
