(* ===== verification/Responses.thy ===== *)
theory Responses
  imports Budgets
begin

text \<open>
  How an error crosses the two boundaries of the server: from the Durable Object to the edge
  Worker as a JSON body (\<open>do_error_response\<close> in \<open>server/src/wire/http.rs\<close> and
  \<open>Error::from_do_response\<close> in \<open>server/src/error.rs\<close>), and from the edge to the git client
  (\<open>respond\<close>). The JSON text itself is serde's; a body is the record of its fields, and
  \<open>None\<close> stands for a body that does not parse.
\<close>

section \<open>Durable Object to edge\<close>

record err_body =
  eb_error :: "string option"
  eb_message :: "string option"
  eb_retry_after :: "nat option"

record do_response =
  dr_status :: nat
  dr_subrequests :: "string option"
  dr_body :: "err_body option"

primrec do_error_kind :: "error \<Rightarrow> string" where
  "do_error_kind (Protocol _) = ''protocol''"
| "do_error_kind Auth = ''auth''"
| "do_error_kind Forbidden = ''forbidden''"
| "do_error_kind NotFound = ''notfound''"
| "do_error_kind Gone = ''gone''"
| "do_error_kind (Conflict _) = ''conflict''"
| "do_error_kind (Unpack _) = ''unpack''"
| "do_error_kind Budget = ''budget''"
| "do_error_kind (Limit _) = ''limit''"
| "do_error_kind (RateLimit _) = ''ratelimit''"
| "do_error_kind (Busy _) = ''busy''"
| "do_error_kind (Storage _) = ''internal''"
| "do_error_kind (Internal _) = ''internal''"

definition subrequests_stamp :: "nat \<Rightarrow> string" where
  "subrequests_stamp n = nat_dec n @ ''/'' @ nat_dec PAID_SUBREQUESTS"

definition do_error_response :: "error \<Rightarrow> nat \<Rightarrow> do_response" where
  "do_error_response e subreqs =
     \<lparr>dr_status = status e,
      dr_subrequests = Some (subrequests_stamp subreqs),
      dr_body = Some
        \<lparr>eb_error = Some (do_error_kind e),
         eb_message = Some (message e),
         eb_retry_after = (case e of RateLimit s \<Rightarrow> Some s | Busy s \<Rightarrow> Some s | _ \<Rightarrow> None)\<rparr>\<rparr>"

definition reported_spend :: "string option \<Rightarrow> nat option" where
  "reported_spend h = (case h of None \<Rightarrow> None | Some v \<Rightarrow> parse_unsigned U32_MAX (hd (split_on (CHR ''/'') v)))"

definition error_of_body :: "err_body \<Rightarrow> error" where
  "error_of_body b =
     (let msg = (case eb_message b of None \<Rightarrow> [] | Some m \<Rightarrow> m);
          retry = (case eb_retry_after b of None \<Rightarrow> 60 | Some s \<Rightarrow> s)
      in case eb_error b of
           None \<Rightarrow> Storage msg
         | Some k \<Rightarrow>
             if k = ''protocol'' then Protocol msg
             else if k = ''auth'' then Auth
             else if k = ''forbidden'' then Forbidden
             else if k = ''notfound'' then NotFound
             else if k = ''gone'' then Gone
             else if k = ''conflict'' then Conflict msg
             else if k = ''unpack'' then Unpack msg
             else if k = ''budget'' then Budget
             else if k = ''limit'' then Limit msg
             else if k = ''ratelimit'' then RateLimit retry
             else if k = ''busy'' then Busy retry
             else Storage msg)"

text \<open>The tally is the edge's; the spend the Durable Object stamped is folded in, never charged.\<close>

definition from_do_response :: "do_response \<Rightarrow> req_budget \<Rightarrow> nat \<Rightarrow> nat \<times> error" where
  "from_do_response r b tally =
     ((case reported_spend (dr_subrequests r) of None \<Rightarrow> tally | Some n \<Rightarrow> report b n tally),
      (case dr_body r of
         Some eb \<Rightarrow> error_of_body eb
       | None \<Rightarrow> Storage (''DO returned '' @ nat_dec (dr_status r))))"

lemma reported_spend_stamp: "n \<le> U32_MAX \<Longrightarrow> reported_spend (Some (subrequests_stamp n)) = Some n"
proof -
  have "CHR ''/'' \<notin> set (nat_dec n)" using nat_dec_digits [of "CHR ''/''" n] by auto
  then show "n \<le> U32_MAX \<Longrightarrow> reported_spend (Some (subrequests_stamp n)) = Some n"
    by (simp add: reported_spend_def subrequests_stamp_def split_on_append parse_unsigned_nat_dec)
qed

lemma error_of_body_roundtrip:
  "error_of_body (the (dr_body (do_error_response e n))) =
     (case e of Internal m \<Rightarrow> Storage m | _ \<Rightarrow> e)"
  by (cases e) (simp_all add: do_error_response_def error_of_body_def)

text \<open>
  C22. An error the Durable Object answers with is the error the edge rebuilds from the response:
  same variant, same message, same retry hint, with the Durable Object's own subrequest spend
  added to the request tally. Only \<open>Internal\<close> changes, into \<open>Storage\<close>, which has the same
  status and is shown to clients the same way.
\<close>

theorem do_error_roundtrip:
  assumes "n \<le> U32_MAX"
  shows "from_do_response (do_error_response e n) b tally =
           (report b n tally, case e of Internal m \<Rightarrow> Storage m | _ \<Rightarrow> e)
         \<and> dr_status (do_error_response e n) = status (snd (from_do_response (do_error_response e n) b tally))"
proof -
  have body: "dr_body (do_error_response e n) = Some (the (dr_body (do_error_response e n)))"
    and hdr: "dr_subrequests (do_error_response e n) = Some (subrequests_stamp n)"
    by (simp_all add: do_error_response_def)
  have eq: "from_do_response (do_error_response e n) b tally =
              (report b n tally, case e of Internal m \<Rightarrow> Storage m | _ \<Rightarrow> e)"
    unfolding from_do_response_def
    by (subst body) (simp add: hdr reported_spend_stamp [OF assms] error_of_body_roundtrip)
  show ?thesis
    unfolding eq by (cases e) (simp_all add: do_error_response_def)
qed

theorem do_error_roundtrip_witness:
  "(7::nat) \<le> U32_MAX \<and>
   from_do_response (do_error_response (RateLimit 12) 7) (reporting (paid 0)) 3 = (10, RateLimit 12)"
proof -
  have h: "(7::nat) \<le> U32_MAX" by simp
  show ?thesis
    using h do_error_roundtrip [OF h, of "RateLimit 12" "reporting (paid 0)" 3]
    by (simp add: report_def reporting_def sat32_def)
qed

section \<open>Edge to client\<close>

record http_resp =
  r_status :: nat
  r_headers :: "(string \<times> string) list"
  r_body :: bytes

definition set_header :: "string \<Rightarrow> string \<Rightarrow> http_resp \<Rightarrow> http_resp" where
  "set_header k v r = r\<lparr>r_headers := tbl_put k v (r_headers r)\<rparr>"

definition stamp_subrequests :: "nat \<Rightarrow> http_resp \<Rightarrow> http_resp" where
  "stamp_subrequests n r = set_header ''x-ge-subrequests'' (subrequests_stamp n) r"

definition error_body :: "bool \<Rightarrow> error \<Rightarrow> bytes" where
  "error_body git_pkt e =
     (if git_pkt
      then (let msg = ''ERR '' @ client_message e @ [LF] in hex_pad4 (length msg + 4) @ msg)
      else client_message e @ [LF])"

definition respond :: "http_resp res \<Rightarrow> bool \<Rightarrow> nat \<Rightarrow> http_resp" where
  "respond r git_pkt subreqs =
     (case r of
        Inr resp \<Rightarrow>
          if map_of (r_headers resp) ''x-ge-subrequests'' = None then stamp_subrequests subreqs resp else resp
      | Inl e \<Rightarrow>
          (let resp0 = \<lparr>r_status = 200, r_headers = [], r_body = error_body git_pkt e\<rparr>;
               resp1 = (if e = Auth then set_header ''WWW-Authenticate'' ''Basic realm=\"git-edge\"'' resp0 else resp0);
               resp2 = (case e of
                          RateLimit secs \<Rightarrow> set_header ''Retry-After'' (nat_dec (max secs 1)) resp1
                        | Busy secs \<Rightarrow> set_header ''Retry-After'' (nat_dec (max secs 1)) resp1
                        | _ \<Rightarrow> resp1);
               resp3 = stamp_subrequests subreqs resp2
           in resp3\<lparr>r_status := status e\<rparr>))"

lemma set_header_frame [simp]:
  "r_body (set_header k v r) = r_body r" "r_status (set_header k v r) = r_status r"
  "r_body (stamp_subrequests n r) = r_body r" "r_status (stamp_subrequests n r) = r_status r"
  "map_of (r_headers (set_header k v r)) = (map_of (r_headers r))(k \<mapsto> v)"
  by (simp_all add: set_header_def stamp_subrequests_def)

lemma respond_error [simp]:
  "r_body (respond (Inl e) g n) = error_body g e" "r_status (respond (Inl e) g n) = status e"
  by (cases e; simp add: respond_def Let_def)+

text \<open>
  C23. Every error answered on a git-protocol route is exactly one well-formed pkt-line: its four
  hexadecimal digits are the length of the whole body, the payload is \<open>ERR\<close> and printable ASCII
  ending in one newline, it is at most 521 bytes, and for the two internal variants it carries
  none of the message (no R2 key, no SQL text): only the fixed words. The response always has
  the request's subrequest stamp.
\<close>

theorem respond_err_pkt_line:
  "let body = r_body (respond (Inl e) True n); line = drop 4 body in
     hex_acc 0 (take 4 body) = Some (length body) \<and> length body \<le> 521
     \<and> starts_with ''ERR '' line \<and> last line = LF
     \<and> (\<forall>c \<in> set (butlast line). printable c)
     \<and> (is_fatal e \<longrightarrow> line = ''ERR internal error'' @ [LF])
     \<and> r_status (respond (Inl e) True n) = status e
     \<and> map_of (r_headers (respond (Inl e) True n)) ''x-ge-subrequests'' = Some (subrequests_stamp n)"
proof -
  define msg where "msg = ''ERR '' @ client_message e @ [LF]"
  have len: "length msg + 4 \<le> 521" and len4: "length (hex_pad4 (length msg + 4)) = 4"
    using client_message_length [of e] by (simp_all add: msg_def)
  have body: "r_body (respond (Inl e) True n) = hex_pad4 (length msg + 4) @ msg"
    by (simp add: error_body_def msg_def)
  have print: "\<forall>c \<in> set (butlast msg). printable c"
    using client_message_printable [of _ e]
    by (auto simp: msg_def butlast_append printable_def byte_val_def)
  have hdr: "map_of (r_headers (respond (Inl e) True n)) ''x-ge-subrequests'' = Some (subrequests_stamp n)"
    by (simp add: respond_def Let_def stamp_subrequests_def set_header_def)
  have fatal: "is_fatal e \<longrightarrow> msg = ''ERR internal error'' @ [LF]"
    by (simp add: msg_def client_message_fatal)
  have line: "drop 4 (hex_pad4 (length msg + 4) @ msg) = msg"
    and "hex_acc 0 (take 4 (hex_pad4 (length msg + 4) @ msg)) = Some (length msg + 4)"
    using len4 by simp_all
  moreover have "starts_with ''ERR '' msg" "last msg = LF"
    by (simp_all add: msg_def starts_with_def)
  ultimately show ?thesis
    unfolding Let_def body line using len len4 print hdr fatal by simp
qed

theorem respond_err_pkt_line_witness:
  "r_body (respond (Inl (Storage ''r/secret/key'')) True 0) = ''0017ERR internal error'' @ [LF]"
proof -
  let ?b = "r_body (respond (Inl (Storage ''r/secret/key'')) True 0)"
  have "drop 4 ?b = ''ERR internal error'' @ [LF]"
    using respond_err_pkt_line [of "Storage ''r/secret/key''" 0] by (simp add: Let_def)
  moreover have "take 4 ?b = ''0017''"
    by (simp add: error_body_def Let_def client_message_fatal) code_simp
  ultimately show ?thesis by (metis append_take_drop_id append.assoc append_Cons append_Nil)
qed

end
