(* ===== verification/Scopes.thy ===== *)
theory Scopes
  imports Errors
begin

text \<open>
  The pure access rules of \<open>server/src/repo_do/mod.rs\<close>: token scopes (comma lists of ref patterns
  with an optional trailing star), token lifetimes, the scope a push captures when it begins, the
  credential check repeated when it commits, and the verdict for protected refs.

  Refname validation is gix-validate's: the argument \<open>name_partial_ok\<close> is
  \<open>gix_validate::reference::name_partial(_).is_ok()\<close>.
\<close>

definition ALL_REFS :: string where "ALL_REFS = ''refs/*''"
definition ADMIN_AUTH :: string where "ADMIN_AUTH = ''admin''"
definition TOKEN_INVALID :: string where "TOKEN_INVALID = ''token no longer valid''"
definition MAX_TOKEN_TTL_S :: int where "MAX_TOKEN_TTL_S = 366 * 24 * 3600"

definition scope_pattern_ok :: "(string \<Rightarrow> bool) \<Rightarrow> string \<Rightarrow> bool" where
  "scope_pattern_ok name_partial_ok p0 =
     (let p = (case strip_suffix ''*'' p0 of Some q \<Rightarrow> q | None \<Rightarrow> p0)
      in if \<not> starts_with ''refs/'' p \<or> CHR ''*'' \<in> set p then False
         else (let name = (case strip_suffix ''/'' p of Some q \<Rightarrow> q | None \<Rightarrow> p)
               in name \<noteq> [] \<and> name_partial_ok name))"

text \<open>The patterns of a scope text: split at commas, trimmed, empty pieces dropped.\<close>

definition scope_patterns :: "string \<Rightarrow> string list" where
  "scope_patterns s = filter (\<lambda>p. p \<noteq> []) (map trim (split_on (CHR '','') s))"

definition pattern_covers :: "string \<Rightarrow> string \<Rightarrow> bool" where
  "pattern_covers p name =
     (case strip_suffix ''*'' p of Some prefix \<Rightarrow> starts_with prefix name | None \<Rightarrow> name = p)"

definition scope_allows :: "string option \<Rightarrow> string \<Rightarrow> bool" where
  "scope_allows scope name =
     (case trimmed scope of
        None \<Rightarrow> False
      | Some s \<Rightarrow> list_ex (\<lambda>p. pattern_covers p name) (scope_patterns s))"

text \<open>
  \<open>commit_auth\<close>: \<open>Inr None\<close> for the deployment admin, \<open>Inr (Some s)\<close> for a token whose current
  scope is \<open>s\<close>, \<open>Inl why\<close> when the credential no longer checks out. \<open>row\<close> is the token's current
  level and scope.
\<close>

definition commit_auth :: "string option \<Rightarrow> (string \<times> string option) option \<Rightarrow> string + string option" where
  "commit_auth auth row =
     (case trimmed auth of
        None \<Rightarrow> Inl TOKEN_INVALID
      | Some a \<Rightarrow>
          if a = ADMIN_AUTH then Inr None
          else (case row of
                  None \<Rightarrow> Inl TOKEN_INVALID
                | Some (level, scope) \<Rightarrow>
                    if level \<noteq> ''write'' then Inl TOKEN_INVALID
                    else (case trimmed scope of None \<Rightarrow> Inl TOKEN_INVALID | Some s \<Rightarrow> Inr (Some s))))"

definition push_scope :: "bool \<Rightarrow> string \<Rightarrow> (string \<times> string option) option \<Rightarrow> string res" where
  "push_scope admin key row =
     (if admin then Inr ALL_REFS
      else if key = [] then Inl Auth
      else (case row of
              None \<Rightarrow> Inl Auth
            | Some (level, scope) \<Rightarrow>
                if level \<noteq> ''write'' then Inl Forbidden
                else (case trimmed scope of None \<Rightarrow> Inl Forbidden | Some s \<Rightarrow> Inr s)))"

definition protected_verdict :: "bool \<Rightarrow> bool \<Rightarrow> bool option \<Rightarrow> string option" where
  "protected_verdict old_null new_null ff =
     (if new_null then Some ''protected ref: deletion refused''
      else if old_null then None
      else (case ff of
              Some True \<Rightarrow> None
            | Some False \<Rightarrow> Some ''protected ref: non-fast-forward''
            | None \<Rightarrow> Some ''protected ref: cannot prove fast-forward''))"

definition token_live :: "int option \<Rightarrow> int \<Rightarrow> bool" where
  "token_live expires_at now = (case expires_at of None \<Rightarrow> True | Some e \<Rightarrow> now < e)"

definition mint_expiry :: "int option \<Rightarrow> int \<Rightarrow> int option res" where
  "mint_expiry ttl_s now =
     (case ttl_s of
        None \<Rightarrow> Inr None
      | Some t \<Rightarrow>
          if 1 \<le> t \<and> t \<le> MAX_TOKEN_TTL_S then Inr (Some (now + t * 1000))
          else Inl (Protocol (''ttl_s must be 1..='' @ int_dec MAX_TOKEN_TTL_S)))"

definition mint_scope :: "(string \<Rightarrow> bool) \<Rightarrow> string option \<Rightarrow> string res" where
  "mint_scope name_partial_ok scope =
     (case trimmed scope of
        None \<Rightarrow> Inr ALL_REFS
      | Some s \<Rightarrow>
          if length s > 256 \<or> list_ex (\<lambda>p. \<not> scope_pattern_ok name_partial_ok p) (map trim (split_on (CHR '','') s))
          then Inl (Protocol (''scope must be <=256 bytes of refs/'' @ [CHR 0xE2, CHR 0x80, CHR 0xA6] @ '' patterns (trailing * only)''))
          else Inr s)"

section \<open>Scopes confine\<close>

lemma trimmed_Some: "trimmed s = Some t \<longleftrightarrow> (\<exists>u. s = Some u \<and> t = trim u \<and> t \<noteq> [])"
  by (auto simp: trimmed_def split: option.splits)

lemma trimmed_trim: "t \<noteq> [] \<Longrightarrow> trim t = t \<Longrightarrow> trimmed (Some t) = Some t"
  by (simp add: trimmed_def)

lemma trim_ALL_REFS: "trim ALL_REFS = ALL_REFS"
  by code_simp

lemma ALL_REFS_patterns: "scope_patterns ALL_REFS = [ALL_REFS]"
  by code_simp

lemma pattern_ok_prefix:
  "scope_pattern_ok np p \<Longrightarrow> starts_with ''refs/'' (case strip_suffix ''*'' p of Some q \<Rightarrow> q | None \<Rightarrow> p)"
  by (auto simp: scope_pattern_ok_def Let_def split: if_splits)

lemma starts_with_trans: "starts_with a b \<Longrightarrow> starts_with b c \<Longrightarrow> starts_with a c"
  by (metis append.assoc starts_with_iff)

lemma pattern_ok_confines:
  assumes "scope_pattern_ok np p" and "pattern_covers p name"
  shows "starts_with ''refs/'' name"
  using pattern_ok_prefix [OF assms(1)] assms(2)
  by (auto simp: pattern_covers_def split: option.splits intro: starts_with_trans)

lemma ALL_REFS_confines: "pattern_covers ALL_REFS name \<longleftrightarrow> starts_with ''refs/'' name"
proof -
  have "strip_suffix ''*'' ALL_REFS = Some ''refs/''" by code_simp
  then show ?thesis by (simp add: pattern_covers_def)
qed

lemma scope_allows_patterns:
  "trim s = s \<Longrightarrow> s \<noteq> [] \<Longrightarrow>
     scope_allows (Some s) name \<longleftrightarrow> (\<exists>p \<in> set (scope_patterns s). pattern_covers p name)"
  by (auto simp: scope_allows_def trimmed_def list_ex_iff)

lemma mint_scope_shape:
  assumes "mint_scope np sc = Inr s"
  shows "s \<noteq> [] \<and> trim s = s"
  using assms trim_ALL_REFS
  by (auto simp: mint_scope_def trimmed_Some ALL_REFS_def split: option.splits if_splits)

lemma mint_scope_patterns:
  assumes "mint_scope np sc = Inr s" and "s \<noteq> ALL_REFS" and "p \<in> set (scope_patterns s)"
  shows "scope_pattern_ok np p"
  using assms
  by (auto simp: mint_scope_def scope_patterns_def list_ex_iff split: option.splits if_splits)




section \<open>Fail closed\<close>

lemma scope_allows_None [simp]: "\<not> scope_allows None name"
  by (simp add: scope_allows_def trimmed_def)

lemma commit_auth_Some:
  "commit_auth auth row = Inr (Some s) \<Longrightarrow>
     \<exists>a sc. row = Some (''write'', sc) \<and> trimmed auth = Some a \<and> a \<noteq> ADMIN_AUTH \<and> trimmed sc = Some s"
  by (auto simp: commit_auth_def split: option.splits if_splits prod.splits)

lemma commit_auth_admin: "commit_auth auth row = Inr None \<Longrightarrow> trimmed auth = Some ADMIN_AUTH"
  by (auto simp: commit_auth_def split: option.splits if_splits prod.splits)

lemma protected_verdict_None:
  "protected_verdict old_null new_null ff = None \<longleftrightarrow> \<not> new_null \<and> (old_null \<or> ff = Some True)"
  by (auto simp: protected_verdict_def split: option.splits bool.splits)

end
