(* ===== verification/Schema.thy ===== *)
theory Schema
  imports Scopes
begin

text \<open>
  The SQLite database of one repository object, table by table
  (\<open>server/src/store/mod.rs\<close>, module \<open>schema\<close>), and the accessors of \<open>server/src/repo_do/mod.rs\<close>
  that read and write \<open>meta\<close> and the object format.

  A table with a primary key is an association list with distinct keys; \<open>reflog\<close>, whose key is
  an insertion counter, is the list of its rows in insertion order; \<open>jobs\<close> and \<open>push_events\<close> carry
  their \<open>AUTOINCREMENT\<close> counter, which never goes back. Columns that hold one of a fixed set of
  texts are datatypes. Not represented here: the staging tables of imports and of the pack
  builder (\<open>push_links\<close>, \<open>import_toc\<close>, \<open>import_parts\<close>, \<open>import_open\<close>, \<open>import_tail\<close>, \<open>gc_parts\<close>,
  \<open>gc_tail\<close>).
\<close>

section \<open>What the code takes from outside\<close>

text \<open>A row of \<open>objects\<close>, keyed by object and pack.\<close>

record obj_row =
  o_idx :: int
  o_offset :: int
  o_len :: int
  o_kind :: int
  o_size :: int

text \<open>
  gix-hash, gix-validate, the deployment's variables, and the row SQLite reports for a group of
  rows (\<open>GROUP BY\<close> with bare columns), which is one of the group. An \<open>ObjectId\<close> is its hexadecimal
  text as \<open>to_string\<close> prints it; \<open>from_hex\<close> returns that text, or the text of gix's error.
\<close>

record ext =
  from_hex :: "string \<Rightarrow> string + string"
  is_null :: "string \<Rightarrow> bool"
  name_ok :: "string \<Rightarrow> bool"
  name_partial_ok :: "string \<Rightarrow> bool"
  env_var :: "string \<Rightarrow> string option"
  group_rep :: "(string \<times> obj_row) list \<Rightarrow> string \<times> obj_row"

definition env_i64 :: "ext \<Rightarrow> string \<Rightarrow> int \<Rightarrow> int" where
  "env_i64 X name d = (case Option.bind (env_var X name) parse_i64 of None \<Rightarrow> d | Some v \<Rightarrow> v)"

definition oid :: "ext \<Rightarrow> string \<Rightarrow> string res" where
  "oid X hex = (case from_hex X hex of Inl e \<Rightarrow> Inl (Protocol e) | Inr h \<Rightarrow> Inr h)"

text \<open>
  A concrete instance for runs of the model: identifiers of 40 digits, every refname valid, no
  variable set.
\<close>

definition plain_ext :: ext where
  "plain_ext =
     \<lparr>from_hex = (\<lambda>s. if length s = 40 then Inr s else Inl ''invalid length''),
      is_null = list_all (\<lambda>c. c = CHR ''0''), name_ok = (\<lambda>_. True), name_partial_ok = (\<lambda>_. True),
      env_var = (\<lambda>_. None), group_rep = hd\<rparr>"

section \<open>Rows\<close>

record ref_row =
  r_target :: string
  r_peeled :: "string option"
  r_updated_at :: int

record reflog_row =
  l_name :: string
  l_old :: string
  l_new :: string
  l_push_id :: string
  l_principal :: string
  l_at :: int

datatype push_state = PushOpen | PushCommitted | PushRejected | PushDead | PushExpired

primrec push_state_text :: "push_state \<Rightarrow> string" where
  "push_state_text PushOpen = ''open''"
| "push_state_text PushCommitted = ''committed''"
| "push_state_text PushRejected = ''rejected''"
| "push_state_text PushDead = ''dead''"
| "push_state_text PushExpired = ''expired''"

text \<open>\<open>result\<close> is the JSON text of the per-ref results; the results themselves are kept.\<close>

record push_row =
  p_state :: push_state
  p_pack_id :: "string option"
  p_principal :: string
  p_began_at :: int
  p_ended_at :: "int option"
  p_gc_epoch :: int
  p_result :: "(string \<times> string option) list option"
  p_swept_at :: "int option"
  p_scope :: "string option"
  p_auth :: "string option"

datatype pack_state = Ingesting | Live | Dead

record pack_row =
  k_state :: pack_state
  k_count :: int
  k_bytes :: int
  k_commit_lo :: int
  k_commit_hi :: int
  k_push_id :: "string option"
  k_created_at :: int
  k_dead_at :: "int option"

datatype job_state = JQueued | JRunning | JDead

record job_row =
  j_kind :: string
  j_run_at :: int
  j_attempts :: int
  j_cursor :: "string option"
  j_payload :: string
  j_state :: job_state
  j_last_error :: "string option"
  j_started_at :: "int option"
  j_lease :: "string option"
  j_strands :: int

record token_row =
  tk_hash :: string
  tk_level :: string
  tk_name :: string
  tk_created_at :: int
  tk_scope :: "string option"
  tk_expires_at :: "int option"

text \<open>\<open>push_events.body\<close> is JSON; its fields are kept as columns.\<close>

record event_row =
  e_push_id :: string
  e_at :: int
  e_owner :: string
  e_repo :: string
  e_repo_id :: string
  e_principal :: string
  e_refs :: "(string \<times> string \<times> string) list"
  e_attempts :: int
  e_last_error :: "string option"

section \<open>The database\<close>

record db =
  t_meta :: "(string \<times> string) list"
  t_refs :: "(string \<times> ref_row) list"
  t_reflog :: "reflog_row list"
  t_pushes :: "(string \<times> push_row) list"
  t_packs :: "(string \<times> pack_row) list"
  t_objects :: "((string \<times> string) \<times> obj_row) list"
  t_jobs :: "(int \<times> job_row) list"
  jobs_seq :: int
  t_gc_frontier :: "(string \<times> int) list"
  t_gc_seen :: "string list"
  t_gc_pending :: "(string \<times> int) list"
  t_tokens :: "(string \<times> token_row) list"
  t_pins :: "(string \<times> string \<times> int) list"
  t_protected :: "(string \<times> int) list"
  t_push_events :: "(int \<times> event_row) list"
  events_seq :: int
  t_commit_parents :: "((string \<times> int) \<times> string option) list"
  t_rate :: "((string \<times> int) \<times> int) list"

definition empty_db :: db where
  "empty_db =
     \<lparr>t_meta = [], t_refs = [], t_reflog = [], t_pushes = [], t_packs = [], t_objects = [], t_jobs = [],
      jobs_seq = 0, t_gc_frontier = [], t_gc_seen = [], t_gc_pending = [], t_tokens = [], t_pins = [],
      t_protected = [], t_push_events = [], events_seq = 0, t_commit_parents = [], t_rate = []\<rparr>"

text \<open>
  \<open>schema::migrate\<close>: the tables exist after it; on rows, it only writes out the scope of tokens
  from before scopes were explicit. SQL's \<open>trim\<close> removes spaces.
\<close>

definition sql_blank :: "string \<Rightarrow> bool" where
  "sql_blank s \<longleftrightarrow> list_all (\<lambda>c. c = CHR '' '') s"

definition migrate :: "db \<Rightarrow> db" where
  "migrate d =
     d\<lparr>t_tokens := tbl_update (\<lambda>_ t. case tk_scope t of None \<Rightarrow> True | Some s \<Rightarrow> sql_blank s)
                               (\<lambda>t. t\<lparr>tk_scope := Some ALL_REFS\<rparr>) (t_tokens d)\<rparr>"

section \<open>Meta rows\<close>

definition meta_opt :: "db \<Rightarrow> string \<Rightarrow> string option" where
  "meta_opt d key = map_of (t_meta d) key"

definition meta_get :: "db \<Rightarrow> string \<Rightarrow> string res" where
  "meta_get d key =
     (case meta_opt d key of Some v \<Rightarrow> Inr v | None \<Rightarrow> Inl (Storage (''meta.'' @ key @ '' missing'')))"

definition meta_i64 :: "db \<Rightarrow> string \<Rightarrow> int res" where
  "meta_i64 d key =
     (case meta_get d key of
        Inl e \<Rightarrow> Inl e
      | Inr v \<Rightarrow> (case parse_i64 v of Some n \<Rightarrow> Inr n | None \<Rightarrow> Inl (Internal (''meta.'' @ key))))"

text \<open>
  \<open>INSERT .. ON CONFLICT(key) DO UPDATE\<close>, \<open>.. DO NOTHING\<close>, \<open>DELETE\<close>, and
  \<open>UPDATE meta SET value=value+1 WHERE key=?\<close>.
\<close>

definition meta_put :: "string \<Rightarrow> string \<Rightarrow> db \<Rightarrow> db" where
  "meta_put k v d = d\<lparr>t_meta := tbl_put k v (t_meta d)\<rparr>"

definition meta_put_new :: "string \<Rightarrow> string \<Rightarrow> db \<Rightarrow> db" where
  "meta_put_new k v d = (case meta_opt d k of None \<Rightarrow> meta_put k v d | Some _ \<Rightarrow> d)"

definition meta_del :: "string \<Rightarrow> db \<Rightarrow> db" where
  "meta_del k d = d\<lparr>t_meta := tbl_del k (t_meta d)\<rparr>"

definition meta_bump :: "string \<Rightarrow> db \<Rightarrow> db" where
  "meta_bump k d = (case meta_opt d k of None \<Rightarrow> d | Some v \<Rightarrow> meta_put k (int_dec (sql_int v + 1)) d)"

section \<open>The object format\<close>

datatype hash_kind = Sha1 | Sha256

primrec kind_name :: "hash_kind \<Rightarrow> string" where
  "kind_name Sha256 = ''sha256''"
| "kind_name Sha1 = ''sha1''"

definition obj_kind :: "db \<Rightarrow> hash_kind" where
  "obj_kind d = (if meta_opt d ''obj_format'' = Some ''sha256'' then Sha256 else Sha1)"

definition parse_kind :: "string option \<Rightarrow> hash_kind option res" where
  "parse_kind s =
     (case s of
        None \<Rightarrow> Inr None
      | Some t \<Rightarrow>
          if t = ''sha1'' then Inr (Some Sha1)
          else if t = ''sha256'' then Inr (Some Sha256)
          else Inl (Protocol (''object-format '' @ t @ '' unsupported'')))"

definition obj_format_pinned :: "db \<Rightarrow> bool" where
  "obj_format_pinned d \<longleftrightarrow> meta_opt d ''obj_format'' \<noteq> None"

definition check_object_format :: "db \<Rightarrow> hash_kind \<Rightarrow> hash_kind res" where
  "check_object_format d client =
     (let repo = obj_kind d
      in if \<not> obj_format_pinned d then Inr client
         else if client \<noteq> repo
              then Inl (Protocol (''object-format '' @ kind_name client @ '' does not match repo '' @ kind_name repo))
              else Inr repo)"

definition pin_obj_format :: "hash_kind \<Rightarrow> db \<Rightarrow> db \<times> unit res" where
  "pin_obj_format kind d =
     (let d' = meta_put_new ''obj_format'' (kind_name kind) d
      in if obj_kind d' \<noteq> kind
         then (d', Inl (Conflict (''repo is '' @ (if kind = Sha1 then ''sha256'' else ''sha1'') @ '' '' @
                  [CHR 0xE2, CHR 0x80, CHR 0x94] @ '' cannot accept '' @ kind_name kind @ '' objects'')))
         else (d', Inr ()))"

section \<open>Pack admission\<close>

definition DEFAULT_MAX_LIVE_PACKS :: int where "DEFAULT_MAX_LIVE_PACKS = 1000"
definition BUSY_RETRY_S :: nat where "BUSY_RETRY_S = 60"

definition at_pack_cap :: "ext \<Rightarrow> db \<Rightarrow> bool" where
  "at_pack_cap X d =
     (let v = env_i64 X ''GE_MAX_LIVE_PACKS'' DEFAULT_MAX_LIVE_PACKS
      in if v \<le> 0 then False
         else (let cap = max v 2
               in cap \<le> int (tbl_count (\<lambda>_ k. k_state k = Live \<or> k_state k = Ingesting) (t_packs d))))"

definition admit_pack :: "ext \<Rightarrow> db \<Rightarrow> unit res" where
  "admit_pack X d = (if at_pack_cap X d then Inl (Busy BUSY_RETRY_S) else Inr ())"

section \<open>Laws\<close>

lemma meta_opt_put [simp]: "meta_opt (meta_put k v d) j = (if j = k then Some v else meta_opt d j)"
  by (simp add: meta_opt_def meta_put_def)

lemma meta_opt_del [simp]: "meta_opt (meta_del k d) j = (if j = k then None else meta_opt d j)"
  by (simp add: meta_opt_def meta_del_def)

lemma meta_opt_put_new [simp]:
  "meta_opt (meta_put_new k v d) j = (if j = k \<and> meta_opt d k = None then Some v else meta_opt d j)"
  by (simp add: meta_put_new_def split: option.splits)

lemma meta_opt_bump [simp]:
  "meta_opt (meta_bump k d) j =
     (if j = k then map_option (\<lambda>v. int_dec (sql_int v + 1)) (meta_opt d k) else meta_opt d j)"
  by (simp add: meta_bump_def split: option.splits)

lemma meta_ops_frame [simp]:
  "t_refs (meta_put k v d) = t_refs d" "t_refs (meta_put_new k v d) = t_refs d"
  "t_refs (meta_del k d) = t_refs d" "t_refs (meta_bump k d) = t_refs d"
  "t_reflog (meta_put k v d) = t_reflog d" "t_reflog (meta_put_new k v d) = t_reflog d"
  "t_reflog (meta_del k d) = t_reflog d" "t_reflog (meta_bump k d) = t_reflog d"
  "t_packs (meta_put k v d) = t_packs d" "t_packs (meta_put_new k v d) = t_packs d"
  "t_packs (meta_del k d) = t_packs d" "t_packs (meta_bump k d) = t_packs d"
  "t_objects (meta_put k v d) = t_objects d" "t_objects (meta_put_new k v d) = t_objects d"
  "t_objects (meta_del k d) = t_objects d" "t_objects (meta_bump k d) = t_objects d"
  "t_jobs (meta_put k v d) = t_jobs d" "t_jobs (meta_put_new k v d) = t_jobs d"
  "t_jobs (meta_del k d) = t_jobs d" "t_jobs (meta_bump k d) = t_jobs d"
  "t_pins (meta_put k v d) = t_pins d" "t_pins (meta_put_new k v d) = t_pins d"
  "t_pins (meta_del k d) = t_pins d" "t_pins (meta_bump k d) = t_pins d"
  "t_protected (meta_put k v d) = t_protected d" "t_protected (meta_put_new k v d) = t_protected d"
  "t_protected (meta_del k d) = t_protected d" "t_protected (meta_bump k d) = t_protected d"
  "t_tokens (meta_put k v d) = t_tokens d" "t_tokens (meta_put_new k v d) = t_tokens d"
  "t_tokens (meta_del k d) = t_tokens d" "t_tokens (meta_bump k d) = t_tokens d"
  "t_pushes (meta_put k v d) = t_pushes d" "t_pushes (meta_put_new k v d) = t_pushes d"
  "t_pushes (meta_del k d) = t_pushes d" "t_pushes (meta_bump k d) = t_pushes d"
  "t_commit_parents (meta_put k v d) = t_commit_parents d"
  "t_commit_parents (meta_put_new k v d) = t_commit_parents d"
  "t_commit_parents (meta_del k d) = t_commit_parents d"
  "t_commit_parents (meta_bump k d) = t_commit_parents d"
  "jobs_seq (meta_put k v d) = jobs_seq d" "jobs_seq (meta_put_new k v d) = jobs_seq d"
  "jobs_seq (meta_del k d) = jobs_seq d" "jobs_seq (meta_bump k d) = jobs_seq d"
  by (simp_all add: meta_put_def meta_put_new_def meta_del_def meta_bump_def split: option.splits)

text \<open>The format, once pinned, never changes, and a pin that is refused leaves it as it was.\<close>

lemma pin_obj_format_sticky:
  assumes "obj_format_pinned d"
  shows "meta_opt (fst (pin_obj_format kind d)) j = meta_opt d j"
  using assms by (auto simp: pin_obj_format_def Let_def obj_format_pinned_def)

lemma pin_obj_format_ok:
  assumes "snd (pin_obj_format kind d) = Inr ()"
  shows "obj_kind (fst (pin_obj_format kind d)) = kind \<and> obj_format_pinned (fst (pin_obj_format kind d))"
  using assms by (auto simp: pin_obj_format_def Let_def obj_format_pinned_def split: if_splits)

end
