(* ===== verification/Jobs.thy ===== *)
theory Jobs
  imports Schema Budgets
begin

text \<open>
  The job dispatcher, \<open>server/src/jobs/mod.rs\<close>: a queue of rows in the \<open>jobs\<close> table, one slice of
  work per alarm. A dispatch claims a queued row under a fresh lease, runs a slice outside any
  database span, and lands the outcome fenced on that lease; \<open>repair\<close>, run at every boot, requeues
  rows a killed isolate left running.

  The clock reading of a span, the random lease and the slice's own result are arguments. The
  test hooks are off, as in production: a knob is absent and a crash marker is an ordinary error.
\<close>

section \<open>Kinds, rows, outcomes\<close>

datatype job_kind = Janitor | GcMark | GcConsolidate | GcSweep | GcCompact | PurgeRepo | ImportPack | PushEvent

primrec kind_str :: "job_kind \<Rightarrow> string" where
  "kind_str Janitor = ''janitor''"
| "kind_str GcMark = ''gc_mark''"
| "kind_str GcConsolidate = ''gc_consolidate''"
| "kind_str GcSweep = ''gc_sweep''"
| "kind_str GcCompact = ''gc_compact''"
| "kind_str PurgeRepo = ''purge_repo''"
| "kind_str ImportPack = ''import_pack''"
| "kind_str PushEvent = ''push_event''"

definition job_kind_of :: "string \<Rightarrow> job_kind res" where
  "job_kind_of s =
     (if s = ''janitor'' then Inr Janitor
      else if s = ''gc_mark'' then Inr GcMark
      else if s = ''gc_consolidate'' then Inr GcConsolidate
      else if s = ''gc_sweep'' then Inr GcSweep
      else if s = ''gc_compact'' then Inr GcCompact
      else if s = ''purge_repo'' then Inr PurgeRepo
      else if s = ''import_pack'' then Inr ImportPack
      else if s = ''push_event'' then Inr PushEvent
      else Inl (Internal (''unknown job kind '' @ s)))"

record job =
  jb_id :: int
  jb_kind :: job_kind
  jb_run_at :: int
  jb_attempts :: nat
  jb_cursor :: "string option"
  jb_payload :: string
  jb_lease :: string

datatype slice_outcome = Done | Continue string | Reschedule int

text \<open>
  The slice budget: at most 400 subrequests and 20 s, with a yield at 320 or 16 s; \<open>knob\<close> is the
  test knob \<open>slice_subreqs\<close>, which can only pull the yield forward.
\<close>

record slice_budget =
  sb_started :: int
  sb_req :: req_budget
  sb_yield_after :: nat

definition slice_fresh :: "int option \<Rightarrow> int \<Rightarrow> slice_budget" where
  "slice_fresh knob now =
     \<lparr>sb_started = now,
      sb_req = \<lparr>max_subrequests = 400, used = 0, started_ms = now, max_ms = 20000, reports = False\<rparr>,
      sb_yield_after = min 320 (case knob of None \<Rightarrow> 320 | Some v \<Rightarrow> if 0 \<le> v \<and> v \<le> int U32_MAX then nat v else 320)\<rparr>"

definition spent_80pct :: "int \<Rightarrow> slice_budget \<Rightarrow> bool" where
  "spent_80pct now b \<longleftrightarrow> now - sb_started b > 16000 \<or> used (sb_req b) > sb_yield_after b"

section \<open>Leases\<close>

text \<open>The fence: the row is still running under the lease this slice was given.\<close>

definition fence :: "job \<Rightarrow> int \<Rightarrow> job_row \<Rightarrow> bool" where
  "fence job i r \<longleftrightarrow> i = jb_id job \<and> j_state r = JRunning \<and> j_lease r = Some (jb_lease job)"

definition heartbeat :: "int \<Rightarrow> job \<Rightarrow> db \<Rightarrow> db \<times> bool" where
  "heartbeat now job d =
     (d\<lparr>t_jobs := tbl_update (fence job) (\<lambda>r. r\<lparr>j_started_at := Some now\<rparr>) (t_jobs d)\<rparr>,
      tbl_count (fence job) (t_jobs d) = 1)"

definition lease_held :: "db \<Rightarrow> job \<Rightarrow> bool" where
  "lease_held d job \<longleftrightarrow> 0 < tbl_count (fence job) (t_jobs d)"

section \<open>The queue\<close>

definition new_job :: "string \<Rightarrow> int \<Rightarrow> string \<Rightarrow> string option \<Rightarrow> job_row" where
  "new_job kind run_at payload cursor =
     \<lparr>j_kind = kind, j_run_at = run_at, j_attempts = 0, j_cursor = cursor, j_payload = payload,
      j_state = JQueued, j_last_error = None, j_started_at = None, j_lease = None, j_strands = 0\<rparr>"

definition insert_job :: "job_row \<Rightarrow> db \<Rightarrow> db" where
  "insert_job r d = d\<lparr>t_jobs := t_jobs d @ [(jobs_seq d + 1, r)], jobs_seq := jobs_seq d + 1\<rparr>"

definition queued :: "string \<Rightarrow> int \<Rightarrow> job_row \<Rightarrow> bool" where
  "queued kind i r \<longleftrightarrow> j_kind r = kind \<and> j_state r = JQueued"

definition in_flight :: "string \<Rightarrow> int \<Rightarrow> job_row \<Rightarrow> bool" where
  "in_flight kind i r \<longleftrightarrow> j_kind r = kind \<and> (j_state r = JQueued \<or> j_state r = JRunning)"

definition enqueue :: "job_kind \<Rightarrow> int \<Rightarrow> string \<Rightarrow> db \<Rightarrow> db" where
  "enqueue kind run_at payload d =
     (if 0 < tbl_count (queued (kind_str kind)) (t_jobs d) then d
      else insert_job (new_job (kind_str kind) run_at payload None) d)"

text \<open>\<open>rearm\<close>: the time the alarm is set to, or None when it is deleted.\<close>

definition rearm :: "db \<Rightarrow> int option" where
  "rearm d = map_option (\<lambda>(i, r). j_run_at r)
     (min_by (\<lambda>(i, r). j_run_at r) (filter (\<lambda>(i, r). j_state r = JQueued) (t_jobs d)))"

datatype pick = Due | AnyKind "job_kind option"

definition pick_row :: "int \<Rightarrow> pick \<Rightarrow> db \<Rightarrow> (int \<times> job_row) option" where
  "pick_row now p d =
     min_by (\<lambda>(i, r). (j_run_at r, i))
       (filter (\<lambda>(i, r). j_state r = JQueued \<and>
                 (case p of Due \<Rightarrow> j_run_at r \<le> now
                  | AnyKind None \<Rightarrow> True
                  | AnyKind (Some k) \<Rightarrow> j_kind r = kind_str k)) (t_jobs d))"

text \<open>
  The first half of \<open>dispatch_inner\<close>, up to the slice: the claimed job, or None when nothing is
  there to run.
\<close>

definition claim :: "int \<Rightarrow> string \<Rightarrow> pick \<Rightarrow> db \<Rightarrow> db \<times> job option res" where
  "claim now lease p d =
     (case pick_row now p d of
        None \<Rightarrow> (d, Inr None)
      | Some (i, r) \<Rightarrow>
          let P = (\<lambda>j r'. j = i \<and> j_state r' = JQueued);
              d' = d\<lparr>t_jobs := tbl_update P (\<lambda>r'. r'\<lparr>j_state := JRunning, j_started_at := Some now, j_lease := Some lease\<rparr>) (t_jobs d)\<rparr>
          in if tbl_count P (t_jobs d) \<noteq> 1 then (d', Inr None)
             else (case job_kind_of (j_kind r) of
                     Inl e \<Rightarrow> (d', Inl e)
                   | Inr k \<Rightarrow>
                       (d', Inr (Some \<lparr>jb_id = i, jb_kind = k, jb_run_at = j_run_at r,
                                       jb_attempts = (if 0 \<le> j_attempts r \<and> j_attempts r \<le> int U32_MAX then nat (j_attempts r) else 0),
                                       jb_cursor = j_cursor r, jb_payload = j_payload r, jb_lease = lease\<rparr>))))"

section \<open>Landing an outcome\<close>

record report =
  rp_job_id :: int
  rp_kind :: string
  rp_outcome :: string
  rp_error :: "string option"

definition attempt_no :: "job \<Rightarrow> nat" where
  "attempt_no job = sat32 (jb_attempts job + 1)"

definition retry_at :: "int \<Rightarrow> nat \<Rightarrow> int" where
  "retry_at now attempt =
     (let backoff = sat_i64 (30000 * 2 ^ min attempt 20) in sat_i64 (now + min backoff 3600000))"

text \<open>What a finished janitor adds to the queue: its next run, and a mark while the pack cap holds.\<close>

definition janitor_done :: "ext \<Rightarrow> int \<Rightarrow> db \<Rightarrow> db" where
  "janitor_done X now d =
     (let d1 = enqueue Janitor (now + 15 * 60 * 1000) ''{}'' d;
          gc_in_flight = 0 < tbl_count (in_flight (kind_str GcMark)) (t_jobs d1)
      in if at_pack_cap X d1 \<and> \<not> gc_in_flight then enqueue GcMark now ''{}'' d1 else d1)"

definition fenced_update :: "job \<Rightarrow> (job_row \<Rightarrow> job_row) \<Rightarrow> db \<Rightarrow> db \<times> bool" where
  "fenced_update job f d =
     (d\<lparr>t_jobs := tbl_update (fence job) f (t_jobs d)\<rparr>, tbl_count (fence job) (t_jobs d) = 1)"

definition land_outcome :: "ext \<Rightarrow> job \<Rightarrow> int \<Rightarrow> slice_outcome res \<Rightarrow> db \<Rightarrow> db \<times> report" where
  "land_outcome X job now out d =
     (let rep = (\<lambda>outcome err. \<lparr>rp_job_id = jb_id job, rp_kind = kind_str (jb_kind job), rp_outcome = outcome, rp_error = err\<rparr>);
          attempt = attempt_no job
      in case out of
           Inr Done \<Rightarrow>
             let d' = d\<lparr>t_jobs := tbl_delete (fence job) (t_jobs d)\<rparr>
             in if tbl_count (fence job) (t_jobs d) = 1
                then (if jb_kind job = Janitor then janitor_done X now d' else d', rep ''done'' None)
                else (d', rep ''stale'' None)
         | Inr (Continue cursor) \<Rightarrow>
             let (d', ok) = fenced_update job (\<lambda>r. r\<lparr>j_state := JQueued, j_run_at := now, j_cursor := Some cursor, j_strands := 0, j_lease := None\<rparr>) d
             in (d', rep (if ok then ''continue'' else ''stale'') None)
         | Inr (Reschedule run_at) \<Rightarrow>
             let (d', ok) = fenced_update job (\<lambda>r. r\<lparr>j_state := JQueued, j_run_at := run_at, j_cursor := None, j_strands := 0, j_lease := None\<rparr>) d
             in (d', rep (if ok then ''reschedule'' else ''stale'') None)
         | Inl e \<Rightarrow>
             if 8 \<le> attempt
             then let (d', ok) = fenced_update job (\<lambda>r. r\<lparr>j_state := JDead, j_last_error := Some (display e)\<rparr>) d
                  in (d', rep (if ok then ''dead'' else ''stale'') (Some (display e)))
             else let (d', ok) = fenced_update job (\<lambda>r. r\<lparr>j_state := JQueued, j_attempts := int attempt, j_last_error := Some (display e),
                                                           j_run_at := retry_at now attempt, j_lease := None\<rparr>) d
                  in (d', rep (if ok then ''retry'' else ''stale'') (Some (display e))))"

section \<open>Repair at boot\<close>

definition stale_since :: "int \<Rightarrow> job_row \<Rightarrow> bool" where
  "stale_since cutoff r \<longleftrightarrow> j_state r = JRunning \<and> (case j_started_at r of None \<Rightarrow> False | Some s \<Rightarrow> s < cutoff)"

definition strand_cutoff :: "int \<Rightarrow> int" where
  "strand_cutoff now = sat_i64 (now - 60000)"

definition repair_strands :: "int \<Rightarrow> db \<Rightarrow> db" where
  "repair_strands now d =
     (let t1 = tbl_update (\<lambda>_ r. stale_since (strand_cutoff now) r \<and> 64 \<le> j_strands r)
                 (\<lambda>r. r\<lparr>j_state := JDead, j_last_error := Some ''stranded: isolate died 64x without a completed slice''\<rparr>) (t_jobs d);
          t2 = tbl_update (\<lambda>_ r. stale_since (strand_cutoff now) r \<and> j_strands r < 64)
                 (\<lambda>r. r\<lparr>j_state := JQueued, j_run_at := now, j_strands := j_strands r + 1,
                        j_last_error := Some ''stranded mid-slice'', j_lease := None\<rparr>) t1
      in d\<lparr>t_jobs := t2\<rparr>)"

definition repair_janitor :: "int \<Rightarrow> db \<Rightarrow> db" where
  "repair_janitor now d =
     (if tbl_count (in_flight ''janitor'') (t_jobs d) = 0 then enqueue Janitor now ''{}'' d else d)"

definition dead_of :: "string \<Rightarrow> int \<Rightarrow> job_row \<Rightarrow> bool" where
  "dead_of kind i r \<longleftrightarrow> j_kind r = kind \<and> j_state r = JDead"

text \<open>The last error of the newest dead row of a kind.\<close>

definition last_dead_error :: "string \<Rightarrow> db \<Rightarrow> string option" where
  "last_dead_error kind d =
     Option.bind (min_by (\<lambda>(i, r). - i) (filter (\<lambda>(i, r). dead_of kind i r \<and> j_last_error r \<noteq> None) (t_jobs d)))
       (\<lambda>(i, r). j_last_error r)"

definition resurrection_key :: "job_kind \<Rightarrow> db \<Rightarrow> string" where
  "resurrection_key kind d =
     (if kind = GcConsolidate \<and> meta_opt d ''gc.mode'' = Some ''compact'' then ''resurrected.gc_compact''
      else ''resurrected.'' @ kind_str kind)"

definition resurrections :: "string \<Rightarrow> db \<Rightarrow> int" where
  "resurrections key d = (case Option.bind (meta_opt d key) parse_i64 of Some n \<Rightarrow> n | None \<Rightarrow> 0)"

definition repair_kind :: "int \<Rightarrow> job_kind \<Rightarrow> db \<Rightarrow> db" where
  "repair_kind now kind d =
     (if tbl_count (dead_of (kind_str kind)) (t_jobs d) = 0 then d
      else (let d1 = (case last_dead_error (kind_str kind) d of
                        None \<Rightarrow> d
                      | Some e \<Rightarrow> meta_put (''dead.'' @ kind_str kind) e d);
                key = resurrection_key kind d1;
                tries = resurrections key d1
            in if 3 \<le> tries then d1
               else (let d2 = d1\<lparr>t_jobs := tbl_delete (dead_of (kind_str kind)) (t_jobs d1)\<rparr>;
                         d3 = enqueue kind now ''{}'' d2
                     in meta_put key (int_dec (tries + 1)) d3)))"

definition repair :: "int \<Rightarrow> db \<Rightarrow> db" where
  "repair now d =
     fold (repair_kind now) [GcMark, GcConsolidate, GcSweep, GcCompact]
       (repair_janitor now (repair_strands now d))"

section \<open>The fence\<close>

lemma lease_held_iff: "lease_held d job \<longleftrightarrow> (\<exists>(i, r) \<in> set (t_jobs d). fence job i r)"
  by (simp add: lease_held_def tbl_count_pos)

lemma not_held: "\<not> lease_held d job \<longleftrightarrow> tbl_count (fence job) (t_jobs d) = 0"
  by (simp add: lease_held_def)

lemma fence_count:
  "tbl_ok (t_jobs d) \<Longrightarrow> tbl_count (fence job) (t_jobs d) = (if lease_held d job then 1 else 0)"
  using tbl_count_key [of "t_jobs d" "jb_id job" "\<lambda>r. j_state r = JRunning \<and> j_lease r = Some (jb_lease job)"]
  by (auto simp: lease_held_def fence_def [abs_def] split: option.splits if_splits)

text \<open>
  What \<open>heartbeat\<close> and \<open>land_outcome\<close> owe every other slice: without the lease they write nothing.
\<close>

locale fenced_writer =
  fixes wr :: "job \<Rightarrow> 'a \<Rightarrow> db \<Rightarrow> db"
  assumes stale: "\<not> lease_held d job \<Longrightarrow> wr job a d = d"
begin

lemma stale_run: "\<not> lease_held d job \<Longrightarrow> fold (wr job) xs d = d"
  by (induction xs) (simp_all add: stale)

end

lemma land_outcome_stale:
  "\<not> lease_held d job \<Longrightarrow> fst (land_outcome X job now out d) = d \<and> rp_outcome (snd (land_outcome X job now out d)) = ''stale''"
  by (auto simp: land_outcome_def fenced_update_def Let_def not_held tbl_update_none tbl_delete_none
      split: sum.splits slice_outcome.splits)

lemma heartbeat_stale: "\<not> lease_held d job \<Longrightarrow> heartbeat now job d = (d, False)"
  by (simp add: heartbeat_def not_held tbl_update_none)

interpretation hb: fenced_writer "\<lambda>job now d. fst (heartbeat now job d)"
  by unfold_locales (simp add: heartbeat_stale)

interpretation land: fenced_writer "\<lambda>job (X, now, out) d. fst (land_outcome X job now out d)"
  by unfold_locales (auto simp: land_outcome_stale)

section \<open>The queue's own invariant\<close>

definition job_row_ok :: "job_row \<Rightarrow> bool" where
  "job_row_ok r \<longleftrightarrow> 0 \<le> j_attempts r \<and> 0 \<le> j_strands r \<and> j_strands r \<le> 64
     \<and> (j_state r = JRunning \<longrightarrow> j_started_at r \<noteq> None \<and> j_lease r \<noteq> None)"

definition jobs_ok :: "db \<Rightarrow> bool" where
  "jobs_ok d \<longleftrightarrow> tbl_ok (t_jobs d) \<and> (\<forall>i r. (i, r) \<in> set (t_jobs d) \<longrightarrow> i \<le> jobs_seq d \<and> job_row_ok r)"

text \<open>What queue maintenance leaves alone: every table but \<open>jobs\<close>, and the meta keys other components read.\<close>

definition core_meta :: "string \<Rightarrow> bool" where
  "core_meta k \<longleftrightarrow> \<not> starts_with ''dead.'' k \<and> \<not> starts_with ''resurrected.'' k"

definition same_repo :: "db \<Rightarrow> db \<Rightarrow> bool" where
  "same_repo d d' \<longleftrightarrow> d'\<lparr>t_jobs := t_jobs d, jobs_seq := jobs_seq d, t_meta := t_meta d\<rparr> = d
     \<and> (\<forall>k. core_meta k \<longrightarrow> meta_opt d' k = meta_opt d k)"

locale queue_op =
  fixes step :: "'a \<Rightarrow> db \<Rightarrow> db"
  assumes keeps: "jobs_ok d \<Longrightarrow> jobs_ok (step a d)"
    and frame: "same_repo d (step a d)"
begin

lemma run_keeps: "jobs_ok d \<Longrightarrow> jobs_ok (fold step xs d)"
  by (induction xs arbitrary: d) (simp_all add: keeps)

end

lemma same_repo_refl [simp]: "same_repo d d"
  by (simp add: same_repo_def)

lemma same_repo_trans: "same_repo d d' \<Longrightarrow> same_repo d' d'' \<Longrightarrow> same_repo d d''"
  unfolding same_repo_def by (cases d; cases d'; cases d'') auto

lemma same_repo_jobs [simp]: "same_repo d (d\<lparr>t_jobs := t\<rparr>)" "same_repo d (d\<lparr>t_jobs := t, jobs_seq := n\<rparr>)"
  by (simp_all add: same_repo_def meta_opt_def)

lemma same_repo_put: "\<not> core_meta k \<Longrightarrow> same_repo d (meta_put k v d)"
  by (auto simp: same_repo_def meta_put_def meta_opt_def)

lemma jobs_ok_update:
  assumes "jobs_ok d" and "\<And>i r. (i, r) \<in> set (t_jobs d) \<Longrightarrow> job_row_ok r \<Longrightarrow> P i r \<Longrightarrow> job_row_ok (f r)"
  shows "jobs_ok (d\<lparr>t_jobs := tbl_update P f (t_jobs d)\<rparr>)"
  using assms unfolding jobs_ok_def by (auto simp: set_tbl_update)

lemma jobs_ok_delete: "jobs_ok d \<Longrightarrow> jobs_ok (d\<lparr>t_jobs := tbl_delete P (t_jobs d)\<rparr>)"
  unfolding jobs_ok_def by (auto simp: set_tbl_delete tbl_ok_delete)

lemma jobs_ok_put [simp]: "jobs_ok (meta_put k v d) \<longleftrightarrow> jobs_ok d"
  by (simp add: jobs_ok_def)

lemma job_row_ok_new [simp]: "job_row_ok (new_job k t p c)"
  by (simp add: job_row_ok_def new_job_def)

lemma jobs_ok_insert: "jobs_ok d \<Longrightarrow> job_row_ok r \<Longrightarrow> jobs_ok (insert_job r d)"
  unfolding jobs_ok_def insert_job_def tbl_ok_def by (auto simp: image_iff) fastforce+

lemma enqueue_frame [simp]: "same_repo d (enqueue k t p d)"
  by (simp add: enqueue_def insert_job_def)

lemma enqueue_keeps: "jobs_ok d \<Longrightarrow> jobs_ok (enqueue k t p d)"
  by (simp add: enqueue_def jobs_ok_insert)

interpretation enq: queue_op "\<lambda>(k, t, p) d. enqueue k t p d"
  by unfold_locales (auto simp: enqueue_keeps)

lemma fenced_update_keeps:
  "jobs_ok d \<Longrightarrow> (\<And>r. job_row_ok r \<Longrightarrow> job_row_ok (f r)) \<Longrightarrow> jobs_ok (fst (fenced_update job f d))"
  by (simp add: fenced_update_def jobs_ok_update)

lemma heartbeat_keeps: "jobs_ok d \<Longrightarrow> jobs_ok (fst (heartbeat now job d))"
  by (auto simp: heartbeat_def job_row_ok_def intro!: jobs_ok_update)

lemma janitor_done_keeps: "jobs_ok d \<Longrightarrow> jobs_ok (janitor_done X now d)"
  by (simp add: janitor_done_def Let_def enqueue_keeps)

lemma janitor_done_frame: "same_repo d (janitor_done X now d)"
  by (simp add: janitor_done_def Let_def same_repo_trans [OF enqueue_frame enqueue_frame])

lemma land_outcome_keeps: "jobs_ok d \<Longrightarrow> jobs_ok (fst (land_outcome X job now out d))"
  by (auto simp: land_outcome_def Let_def fenced_update_def job_row_ok_def jobs_ok_delete janitor_done_keeps
      intro!: jobs_ok_update split: sum.splits slice_outcome.splits)

lemma land_outcome_frame: "same_repo d (fst (land_outcome X job now out d))"
  by (auto simp: land_outcome_def Let_def fenced_update_def
      intro: same_repo_trans [OF same_repo_jobs(1) janitor_done_frame] split: sum.splits slice_outcome.splits)

lemma claim_keeps: "jobs_ok d \<Longrightarrow> jobs_ok (fst (claim now lease p d))"
  by (auto simp: claim_def Let_def job_row_ok_def intro!: jobs_ok_update split: option.splits sum.splits)

lemma claim_frame: "same_repo d (fst (claim now lease p d))"
  by (auto simp: claim_def Let_def split: option.splits sum.splits)

lemma repair_strands_keeps: "jobs_ok d \<Longrightarrow> jobs_ok (repair_strands now d)"
proof -
  assume ok: "jobs_ok d"
  let ?P = "\<lambda>_ r. stale_since (strand_cutoff now) r \<and> 64 \<le> j_strands r"
  let ?f = "\<lambda>r. r\<lparr>j_state := JDead, j_last_error := Some ''stranded: isolate died 64x without a completed slice''\<rparr>"
  have 1: "jobs_ok (d\<lparr>t_jobs := tbl_update ?P ?f (t_jobs d)\<rparr>)"
    by (rule jobs_ok_update [OF ok]) (simp add: job_row_ok_def)
  show ?thesis
    using jobs_ok_update [OF 1, of "\<lambda>_ r. stale_since (strand_cutoff now) r \<and> j_strands r < 64"
        "\<lambda>r. r\<lparr>j_state := JQueued, j_run_at := now, j_strands := j_strands r + 1,
               j_last_error := Some ''stranded mid-slice'', j_lease := None\<rparr>"]
    by (simp add: repair_strands_def Let_def job_row_ok_def)
qed

lemma repair_kind_keeps: "jobs_ok d \<Longrightarrow> jobs_ok (repair_kind now kind d)"
  by (auto simp: repair_kind_def Let_def jobs_ok_delete enqueue_keeps
      jobs_ok_delete [of "meta_put k v d" for k v, simplified] split: option.splits)

lemma core_meta_simps [simp]: "\<not> core_meta (''dead.'' @ s)" "\<not> core_meta (''resurrected.'' @ s)"
  "\<not> core_meta ''resurrected.gc_compact''"
  using starts_with_append [of "''dead.''" s] starts_with_append [of "''resurrected.''" s]
    starts_with_append [of "''resurrected.''" "''gc_compact''"]
  by (simp_all add: core_meta_def)

lemma resurrection_key_not_core [simp]: "\<not> core_meta (resurrection_key kind d)"
  unfolding resurrection_key_def by (cases "kind = GcConsolidate \<and> meta_opt d ''gc.mode'' = Some ''compact''") (simp_all only: core_meta_simps if_True if_False simp_thms)

lemma repair_kind_frame: "same_repo d (repair_kind now kind d)"
proof -
  let ?d1 = "case last_dead_error (kind_str kind) d of None \<Rightarrow> d | Some e \<Rightarrow> meta_put (''dead.'' @ kind_str kind) e d"
  have 1: "same_repo d ?d1" by (cases "last_dead_error (kind_str kind) d") (simp_all del: append.simps add: same_repo_put)
  have "same_repo (?d1\<lparr>t_jobs := t\<rparr>) (enqueue kind now p (?d1\<lparr>t_jobs := t\<rparr>))" for t p
    by (rule enqueue_frame)
  then have 2: "same_repo ?d1 (enqueue kind now p (?d1\<lparr>t_jobs := t\<rparr>))" for t p
    using same_repo_jobs(1) same_repo_trans by blast
  have 3: "same_repo ?d1 (meta_put (resurrection_key kind e) v (enqueue kind now p (?d1\<lparr>t_jobs := t\<rparr>)))" for t e v p
    using 2 same_repo_put [OF resurrection_key_not_core] same_repo_trans by blast
  from 1 same_repo_trans [OF 1 3] show ?thesis
    unfolding repair_kind_def Let_def by simp
qed

interpretation hbq: queue_op "\<lambda>(now, job) d. fst (heartbeat now job d)"
  by unfold_locales (auto simp: heartbeat_keeps, simp add: heartbeat_def)

interpretation landq: queue_op "\<lambda>(X, job, now, out) d. fst (land_outcome X job now out d)"
  by unfold_locales (auto simp: land_outcome_keeps land_outcome_frame)

interpretation claimq: queue_op "\<lambda>(now, lease, p) d. fst (claim now lease p d)"
  by unfold_locales (auto simp: claim_keeps claim_frame)

interpretation repk: queue_op "\<lambda>(now, kind) d. repair_kind now kind d"
  by unfold_locales (auto simp: repair_kind_keeps repair_kind_frame)

lemma repair_janitor_keeps: "jobs_ok d \<Longrightarrow> jobs_ok (repair_janitor now d)"
  by (simp add: repair_janitor_def enqueue_keeps)

lemma repair_keeps: "jobs_ok d \<Longrightarrow> jobs_ok (repair now d)"
  by (simp add: repair_def repair_kind_keeps repair_janitor_keeps repair_strands_keeps)

lemma repair_kinds_frame: "same_repo d e \<Longrightarrow> same_repo d (fold (repair_kind now) ks e)"
proof (induction ks arbitrary: e)
  case (Cons k ks)
  then show ?case using same_repo_trans [OF Cons.prems repair_kind_frame] by simp
qed simp

lemma repair_frame: "same_repo d (repair now d)"
proof -
  have "same_repo d (repair_janitor now (repair_strands now d))"
    by (rule same_repo_trans [of _ "repair_strands now d"]) (simp_all add: repair_strands_def repair_janitor_def Let_def)
  then show ?thesis
    unfolding repair_def by (rule repair_kinds_frame)
qed

interpretation rep: queue_op repair
  by unfold_locales (auto simp: repair_keeps repair_frame)

section \<open>Slices in flight\<close>

text \<open>
  The dispatcher as a transition system: the database, the slices that are running somewhere, and
  every lease handed out so far. Slices interleave arbitrarily with each other, with boot repair
  and with new work; a slice may die without landing. A lease is 16 random bytes, modelled as
  different from every lease before it.
\<close>

record jobs_sys =
  s_db :: db
  s_slices :: "job list"
  s_issued :: "string list"

inductive jobs_step :: "ext \<Rightarrow> jobs_sys \<Rightarrow> jobs_sys \<Rightarrow> bool" for X where
  step_claim: "lease \<notin> set (s_issued s) \<Longrightarrow> claim now lease p (s_db s) = (d', Inr (Some j)) \<Longrightarrow>
     jobs_step X s \<lparr>s_db = d', s_slices = j # s_slices s, s_issued = lease # s_issued s\<rparr>"
| step_claim_none: "lease \<notin> set (s_issued s) \<Longrightarrow> claim now lease p (s_db s) = (d', r) \<Longrightarrow> (\<nexists>j. r = Inr (Some j)) \<Longrightarrow>
     jobs_step X s (s\<lparr>s_db := d', s_issued := lease # s_issued s\<rparr>)"
| step_beat: "j \<in> set (s_slices s) \<Longrightarrow> jobs_step X s (s\<lparr>s_db := fst (heartbeat now j (s_db s))\<rparr>)"
| step_land: "j \<in> set (s_slices s) \<Longrightarrow>
     jobs_step X s (s\<lparr>s_db := fst (land_outcome X j now out (s_db s)), s_slices := remove1 j (s_slices s)\<rparr>)"
| step_die: "j \<in> set (s_slices s) \<Longrightarrow> jobs_step X s (s\<lparr>s_slices := remove1 j (s_slices s)\<rparr>)"
| step_repair: "jobs_step X s (s\<lparr>s_db := repair now (s_db s)\<rparr>)"
| step_enqueue: "jobs_step X s (s\<lparr>s_db := enqueue k t p (s_db s)\<rparr>)"

definition jobs_init :: "jobs_sys \<Rightarrow> bool" where
  "jobs_init s \<longleftrightarrow> jobs_ok (s_db s) \<and> s_slices s = []"

definition sys_ok :: "jobs_sys \<Rightarrow> bool" where
  "sys_ok s \<longleftrightarrow> jobs_ok (s_db s) \<and> jb_lease ` set (s_slices s) \<subseteq> set (s_issued s)
     \<and> distinct (map jb_lease (s_slices s))"

lemma held_update:
  assumes "lease_held (d\<lparr>t_jobs := tbl_update P f t\<rparr>) j"
    and "\<And>i r. P i r \<Longrightarrow> fence j i (f r) \<Longrightarrow> fence j i r" and "t_jobs d = t"
  shows "lease_held d j"
  using assms by (fastforce simp: lease_held_iff set_tbl_update split: if_splits)

lemma held_delete: "lease_held (d\<lparr>t_jobs := tbl_delete P (t_jobs d)\<rparr>) j \<Longrightarrow> lease_held d j"
  by (auto simp: lease_held_iff set_tbl_delete)

lemma held_enqueue [simp]: "lease_held (enqueue k t p d) j \<longleftrightarrow> lease_held d j"
  by (auto simp: enqueue_def insert_job_def lease_held_iff fence_def new_job_def)

lemma held_put [simp]: "lease_held (meta_put k v d) j \<longleftrightarrow> lease_held d j"
  by (simp add: lease_held_iff)

lemma held_janitor_done [simp]: "lease_held (janitor_done X now d) j \<longleftrightarrow> lease_held d j"
  by (simp add: janitor_done_def Let_def)

lemma held_heartbeat: "lease_held (fst (heartbeat now job d)) j \<Longrightarrow> lease_held d j"
  by (auto simp: heartbeat_def fence_def elim!: held_update)

lemma held_land: "lease_held (fst (land_outcome X job now out d)) j \<Longrightarrow> lease_held d j"
  by (auto simp: land_outcome_def Let_def fenced_update_def fence_def
      split: sum.splits slice_outcome.splits if_splits elim!: held_update dest: held_delete)

lemma held_repair_strands: "lease_held (repair_strands now d) j \<Longrightarrow> lease_held d j"
proof -
  assume h: "lease_held (repair_strands now d) j"
  let ?P = "\<lambda>_ r. stale_since (strand_cutoff now) r \<and> 64 \<le> j_strands r"
  let ?f = "\<lambda>r. r\<lparr>j_state := JDead, j_last_error := Some ''stranded: isolate died 64x without a completed slice''\<rparr>"
  have "lease_held (d\<lparr>t_jobs := tbl_update ?P ?f (t_jobs d)\<rparr>) j"
    by (rule held_update [where P = "\<lambda>_ r. stale_since (strand_cutoff now) r \<and> j_strands r < 64"
          and f = "\<lambda>r. r\<lparr>j_state := JQueued, j_run_at := now, j_strands := j_strands r + 1,
                          j_last_error := Some ''stranded mid-slice'', j_lease := None\<rparr>"])
      (use h in \<open>auto simp: repair_strands_def Let_def fence_def\<close>)
  then show ?thesis by (rule held_update) (auto simp: fence_def)
qed

lemma held_repair_kind: "lease_held (repair_kind now kind d) j \<Longrightarrow> lease_held d j"
proof -
  let ?d1 = "case last_dead_error (kind_str kind) d of None \<Rightarrow> d | Some e \<Rightarrow> meta_put (''dead.'' @ kind_str kind) e d"
  have 1: "lease_held ?d1 j \<longleftrightarrow> lease_held d j"
    by (simp split: option.splits)
  assume "lease_held (repair_kind now kind d) j"
  then show ?thesis
    using 1 held_delete [where d = ?d1 and P = "dead_of (kind_str kind)" and j = j]
    by (simp add: repair_kind_def Let_def split: if_splits)
qed

lemma held_repair: "lease_held (repair now d) j \<Longrightarrow> lease_held d j"
proof -
  have "lease_held (fold (repair_kind now) ks e) j \<Longrightarrow> lease_held e j" for ks e
    by (induction ks arbitrary: e) (auto dest: held_repair_kind)
  moreover have "lease_held (repair_janitor now e) j \<longleftrightarrow> lease_held e j" for e
    by (simp add: repair_janitor_def)
  ultimately show "lease_held (repair now d) j \<Longrightarrow> lease_held d j"
    unfolding repair_def using held_repair_strands by blast
qed

lemma held_claim: "lease_held (fst (claim now lease p d)) j \<Longrightarrow> lease_held d j \<or> jb_lease j = lease"
proof (rule disjCI)
  assume h: "lease_held (fst (claim now lease p d)) j" and "jb_lease j \<noteq> lease"
  then show "lease_held d j"
    by (auto simp: claim_def Let_def fence_def split: option.splits prod.splits if_splits sum.splits elim!: held_update)
qed

lemma claim_lease: "claim now lease p d = (d', Inr (Some j)) \<Longrightarrow> jb_lease j = lease"
  by (auto simp: claim_def Let_def split: option.splits prod.splits if_splits sum.splits)

lemma held_step:
  "jobs_step X s s' \<Longrightarrow> lease_held (s_db s') j \<Longrightarrow> lease_held (s_db s) j \<or> jb_lease j \<notin> set (s_issued s)"
proof (induction rule: jobs_step.induct)
  case (step_claim lease s now p d' j')
  then show ?case using held_claim [of now lease p "s_db s" j] by auto
next
  case (step_claim_none lease s now p d' r)
  then show ?case using held_claim [of now lease p "s_db s" j] by auto
qed (auto dest: held_heartbeat held_land held_repair)

lemma issued_step: "jobs_step X s s' \<Longrightarrow> set (s_issued s) \<subseteq> set (s_issued s')"
  by (induction rule: jobs_step.induct) auto

lemma sys_ok_step: "jobs_step X s s' \<Longrightarrow> sys_ok s \<Longrightarrow> sys_ok s'"
proof (induction rule: jobs_step.induct)
  case (step_claim lease s now p d' j)
  then show ?case
    using claim_keeps [of "s_db s" now lease p] claim_lease [OF step_claim(2)] by (auto simp: sys_ok_def)
next
  case (step_claim_none lease s now p d' r)
  then show ?case using claim_keeps [of "s_db s" now lease p] by (auto simp: sys_ok_def)
next
  case (step_land j s now out)
  then show ?case
    by (auto simp: sys_ok_def land_outcome_keeps distinct_map distinct_remove1 inj_on_def dest: notin_set_remove1)
next
  case (step_die j s)
  then show ?case
    by (auto simp: sys_ok_def distinct_map distinct_remove1 inj_on_def dest: notin_set_remove1)
qed (auto simp: sys_ok_def heartbeat_keeps repair_keeps enqueue_keeps)

lemma sys_ok_steps: "(jobs_step X)\<^sup>*\<^sup>* s s' \<Longrightarrow> sys_ok s \<Longrightarrow> sys_ok s'"
  by (induction rule: rtranclp_induct) (auto intro: sys_ok_step)

lemma init_sys_ok: "jobs_init s \<Longrightarrow> sys_ok s"
  by (simp add: jobs_init_def sys_ok_def)

lemma lost_stays_lost:
  assumes "(jobs_step X)\<^sup>*\<^sup>* s s'" and "jb_lease j \<in> set (s_issued s)" and "\<not> lease_held (s_db s) j"
  shows "\<not> lease_held (s_db s') j"
proof -
  from assms(1) have "jb_lease j \<in> set (s_issued s') \<and> \<not> lease_held (s_db s') j"
  proof (induction rule: rtranclp_induct)
    case base
    then show ?case using assms by simp
  next
    case (step t u)
    then show ?case using held_step [of X t u j] issued_step [of X t u] by auto
  qed
  then show ?thesis ..
qed

lemma held_same_lease:
  assumes "jobs_ok d" "lease_held d j" "lease_held d k" "jb_id j = jb_id k"
  shows "jb_lease j = jb_lease k"
proof -
  from assms obtain r r' where
    "(jb_id j, r) \<in> set (t_jobs d)" "j_lease r = Some (jb_lease j)"
    "(jb_id j, r') \<in> set (t_jobs d)" "j_lease r' = Some (jb_lease k)"
    by (auto simp: lease_held_iff fence_def)
  with assms(1) show ?thesis
    by (metis jobs_ok_def map_of_is_SomeI option.inject tbl_ok_def)
qed

text \<open>
  C12. Lease fencing, over every interleaving of dispatches, heartbeats, landings, isolate deaths,
  boot repairs and enqueues: at most one slice in flight holds any job row, and a slice that has
  lost its row never holds it again: from then on its heartbeats and its outcome change nothing.
\<close>

theorem lease_fencing:
  assumes start: "jobs_init s0" and reach: "(jobs_step X)\<^sup>*\<^sup>* s0 s"
    and j: "j \<in> set (s_slices s)" and lost: "\<not> lease_held (s_db s) j"
    and later: "(jobs_step X)\<^sup>*\<^sup>* s s'"
  shows "\<not> lease_held (s_db s') j
    \<and> heartbeat now j (s_db s') = (s_db s', False)
    \<and> fst (land_outcome X j now out (s_db s')) = s_db s'
    \<and> (\<forall>k \<in> set (s_slices s'). \<forall>l \<in> set (s_slices s').
         jb_id k = jb_id l \<and> lease_held (s_db s') k \<and> lease_held (s_db s') l \<longrightarrow> k = l)"
proof -
  have ok: "sys_ok s" using sys_ok_steps [OF reach init_sys_ok [OF start]] .
  have ok': "sys_ok s'" using sys_ok_steps [OF later ok] .
  have nh: "\<not> lease_held (s_db s') j"
    using lost_stays_lost [OF later _ lost] ok j by (auto simp: sys_ok_def)
  have "k = l" if "k \<in> set (s_slices s')" "l \<in> set (s_slices s')" "jb_id k = jb_id l"
    "lease_held (s_db s') k" "lease_held (s_db s') l" for k l
    using that ok' held_same_lease [of "s_db s'" k l] by (auto simp: sys_ok_def distinct_map inj_on_def)
  then show ?thesis using nh heartbeat_stale [OF nh] land_outcome_stale [OF nh] by blast
qed

text \<open>A run: a janitor is claimed, its isolate stalls past a minute, boot repair requeues it, a second dispatch claims it.\<close>

definition run_row :: "job_state \<Rightarrow> int option \<Rightarrow> string option \<Rightarrow> job_row" where
  "run_row st started lease = (new_job ''janitor'' 0 ''{}'' None)\<lparr>j_state := st, j_started_at := started, j_lease := lease\<rparr>"

definition run_stranded :: job_row where
  "run_stranded = (run_row JQueued (Some 0) None)\<lparr>j_run_at := 100000, j_strands := 1, j_last_error := Some ''stranded mid-slice''\<rparr>"

definition run_db :: "job_row \<Rightarrow> db" where
  "run_db r = empty_db\<lparr>t_jobs := [(1, r)], jobs_seq := 1\<rparr>"

definition run_d0 :: db where "run_d0 = run_db (run_row JQueued None None)"
definition run_d1 :: db where "run_d1 = run_db (run_row JRunning (Some 0) (Some ''a1''))"
definition run_d2 :: db where "run_d2 = run_db run_stranded"
definition run_d3 :: db where
  "run_d3 = run_db (run_stranded\<lparr>j_state := JRunning, j_started_at := Some 100000, j_lease := Some ''b2''\<rparr>)"
definition run_j1 :: job where
  "run_j1 = \<lparr>jb_id = 1, jb_kind = Janitor, jb_run_at = 0, jb_attempts = 0, jb_cursor = None, jb_payload = ''{}'', jb_lease = ''a1''\<rparr>"
definition run_j2 :: job where
  "run_j2 = \<lparr>jb_id = 1, jb_kind = Janitor, jb_run_at = 100000, jb_attempts = 0, jb_cursor = None, jb_payload = ''{}'', jb_lease = ''b2''\<rparr>"

lemmas run_defs = run_d0_def run_d1_def run_d2_def run_d3_def run_j1_def run_j2_def run_db_def run_row_def
  run_stranded_def new_job_def

lemma run_claims:
  "claim 0 ''a1'' Due run_d0 = (run_d1, Inr (Some run_j1))"
  "claim 100000 ''b2'' Due run_d2 = (run_d3, Inr (Some run_j2))"
  by (simp_all add: claim_def pick_row_def tbl_count_def tbl_update_def job_kind_of_def Let_def run_defs)

lemma run_repair: "repair 100000 run_d1 = run_d2"
  by (simp add: repair_def repair_strands_def strand_cutoff_def sat_i64_def repair_janitor_def stale_since_def
      tbl_update_def tbl_count_def in_flight_def repair_kind_def dead_of_def Let_def run_defs)

lemma run_held: "\<not> lease_held run_d2 run_j1" "lease_held run_d3 run_j2" "jobs_ok run_d0"
  by (simp_all add: lease_held_def tbl_count_def fence_def jobs_ok_def tbl_ok_def job_row_ok_def run_defs)

theorem lease_fencing_witness:
  "\<not> lease_held run_d3 run_j1 \<and> lease_held run_d3 run_j2
   \<and> fst (land_outcome plain_ext run_j1 200000 (Inr Done) run_d3) = run_d3"
proof -
  let ?s0 = "\<lparr>s_db = run_d0, s_slices = [], s_issued = []\<rparr>"
  let ?s1 = "\<lparr>s_db = run_d1, s_slices = [run_j1], s_issued = [''a1'']\<rparr>"
  let ?s2 = "\<lparr>s_db = run_d2, s_slices = [run_j1], s_issued = [''a1'']\<rparr>"
  let ?s3 = "\<lparr>s_db = run_d3, s_slices = [run_j2, run_j1], s_issued = [''b2'', ''a1'']\<rparr>"
  have init: "jobs_init ?s0" by (simp add: jobs_init_def run_held)
  have 1: "jobs_step plain_ext ?s0 ?s1"
    using step_claim [of "''a1''" ?s0] run_claims by simp
  have 2: "jobs_step plain_ext ?s1 ?s2"
    using step_repair [of plain_ext ?s1 100000] by (simp add: run_repair)
  have 3: "jobs_step plain_ext ?s2 ?s3"
    using step_claim [of "''b2''" ?s2] run_claims by simp
  have reach: "(jobs_step plain_ext)\<^sup>*\<^sup>* ?s0 ?s2" using 1 2 by auto
  show ?thesis
    using lease_fencing [OF init reach, of run_j1 ?s3] r_into_rtranclp [of "jobs_step plain_ext", OF 3] run_held by simp
qed

section \<open>Failure, repair, wake-ups\<close>

lemma retry_at_bounds:
  assumes "1 \<le> attempt" and "0 \<le> now" and "now \<le> 2 ^ 62"
  shows "now + 60000 \<le> retry_at now attempt \<and> retry_at now attempt \<le> now + 3600000"
proof -
  have lo: "(2 :: int) \<le> 2 ^ min attempt 20"
    using assms(1) power_increasing [of 1 "min attempt 20" "2 :: int"] by simp
  have hi: "(2 :: int) ^ min attempt 20 \<le> 2 ^ 20"
    by (rule power_increasing) auto
  from lo hi have "sat_i64 (30000 * 2 ^ min attempt 20) = 30000 * 2 ^ min attempt 20"
    by (intro sat_i64_id) auto
  moreover have "sat_i64 (now + min (30000 * 2 ^ min attempt 20) 3600000) = now + min (30000 * 2 ^ min attempt 20) 3600000"
    using assms lo by (intro sat_i64_id) auto
  ultimately show ?thesis using lo by (simp add: retry_at_def Let_def)
qed

text \<open>
  C14. What a failing slice does to the row it holds: its eighth attempt kills it, an earlier one
  requeues it, one attempt further, between one minute and one hour later, with its lease cleared
  and its cursor kept; no other row moves.
\<close>

theorem failing_slice_lands:
  assumes ok: "jobs_ok d" and row: "map_of (t_jobs d) (jb_id job) = Some r"
    and held: "fence job (jb_id job) r" and att: "int (jb_attempts job) = j_attempts r" "j_attempts r \<le> 7"
    and now: "0 \<le> now" "now \<le> 2 ^ 62"
  shows "\<exists>t. now + 60000 \<le> t \<and> t \<le> now + 3600000
    \<and> map_of (t_jobs (fst (land_outcome X job now (Inl e) d))) =
        (map_of (t_jobs d))(jb_id job \<mapsto>
           (if j_attempts r = 7 then r\<lparr>j_state := JDead, j_last_error := Some (display e)\<rparr>
            else r\<lparr>j_state := JQueued, j_attempts := j_attempts r + 1, j_last_error := Some (display e),
                   j_run_at := t, j_lease := None\<rparr>))"
proof -
  have a: "int (attempt_no job) = j_attempts r + 1"
    using att by (simp add: attempt_no_def sat32_def)
  then have ge: "8 \<le> attempt_no job \<longleftrightarrow> j_attempts r = 7" using att by linarith
  have "1 \<le> attempt_no job" using a att by linarith
  note b = retry_at_bounds [OF this now]
  have P: "fence job i r' \<longleftrightarrow> i = jb_id job \<and> r' = r" if "map_of (t_jobs d) i = Some r'" for i r'
    using that row held by (auto simp: fence_def)
  have u: "map_of (tbl_update (fence job) f (t_jobs d)) = (map_of (t_jobs d))(jb_id job \<mapsto> f r)" for f
    using row P by (auto simp: map_of_tbl_update fun_eq_iff split: option.splits)
  show ?thesis
    using b a ge
    by (intro exI [of _ "retry_at now (attempt_no job)"])
      (simp add: land_outcome_def Let_def fenced_update_def u)
qed

theorem failing_slice_lands_witness:
  "\<exists>t. 60000 \<le> t \<and> t \<le> 3600000
    \<and> map_of (t_jobs (fst (land_outcome plain_ext run_j1 0 (Inl Budget) run_d1))) 1 =
        Some ((run_row JQueued (Some 0) None)\<lparr>j_attempts := 1, j_last_error := Some (display Budget), j_run_at := t\<rparr>)"
proof -
  have "jobs_ok run_d1" by (simp add: jobs_ok_def tbl_ok_def job_row_ok_def run_defs)
  moreover have "map_of (t_jobs run_d1) (jb_id run_j1) = Some (run_row JRunning (Some 0) (Some ''a1''))"
    by (simp add: run_defs)
  moreover have "fence run_j1 (jb_id run_j1) (run_row JRunning (Some 0) (Some ''a1''))"
    by (simp add: fence_def run_defs)
  ultimately obtain t where "60000 \<le> t" "t \<le> 3600000"
    "map_of (t_jobs (fst (land_outcome plain_ext run_j1 0 (Inl Budget) run_d1))) 1 =
       Some ((run_row JRunning (Some 0) (Some ''a1''))\<lparr>j_state := JQueued, j_attempts := 1,
         j_last_error := Some (display Budget), j_run_at := t, j_lease := None\<rparr>)"
    using failing_slice_lands [of run_d1 run_j1 _ 0 plain_ext Budget] by (auto simp: run_j1_def run_row_def new_job_def)
  then show ?thesis by (auto simp: run_row_def)
qed

lemma set_enqueue:
  "set (t_jobs d) \<subseteq> set (t_jobs (enqueue k t p d))"
  "(i, r) \<in> set (t_jobs (enqueue k t p d)) \<Longrightarrow> (i, r) \<in> set (t_jobs d) \<or> r = new_job (kind_str k) t p None"
  by (auto simp: enqueue_def insert_job_def split: if_splits)

lemma enqueue_queued: "\<exists>(i, r) \<in> set (t_jobs (enqueue k t p d)). queued (kind_str k) i r"
proof (cases "0 < tbl_count (queued (kind_str k)) (t_jobs d)")
  case True
  then show ?thesis by (simp add: enqueue_def tbl_count_pos)
next
  case False
  then show ?thesis by (auto simp: enqueue_def insert_job_def queued_def new_job_def)
qed

lemma repair_kind_rows:
  "(i, r) \<in> set (t_jobs d) \<Longrightarrow> j_state r \<noteq> JDead \<Longrightarrow> (i, r) \<in> set (t_jobs (repair_kind now k d))"
  "(i, r) \<in> set (t_jobs (repair_kind now k d)) \<Longrightarrow> (i, r) \<in> set (t_jobs d) \<or> j_state r = JQueued"
proof -
  let ?d1 = "case last_dead_error (kind_str k) d of None \<Rightarrow> d | Some e \<Rightarrow> meta_put (''dead.'' @ kind_str k) e d"
  have jobs: "t_jobs ?d1 = t_jobs d" by (simp split: option.splits)
  let ?d2 = "?d1\<lparr>t_jobs := tbl_delete (dead_of (kind_str k)) (t_jobs ?d1)\<rparr>"
  have cases: "t_jobs (repair_kind now k d) \<in> {t_jobs d, t_jobs (enqueue k now ''{}'' ?d2)}"
    using jobs by (simp add: repair_kind_def Let_def)
  have in2: "(i, r) \<in> set (t_jobs ?d2) \<longleftrightarrow> (i, r) \<in> set (t_jobs d) \<and> \<not> dead_of (kind_str k) i r"
    using jobs by (simp add: set_tbl_delete)
  show "(i, r) \<in> set (t_jobs d) \<Longrightarrow> j_state r \<noteq> JDead \<Longrightarrow> (i, r) \<in> set (t_jobs (repair_kind now k d))"
    using cases in2 set_enqueue(1) [of ?d2 k now "''{}''"] by (auto simp: dead_of_def)
  show "(i, r) \<in> set (t_jobs (repair_kind now k d)) \<Longrightarrow> (i, r) \<in> set (t_jobs d) \<or> j_state r = JQueued"
    using cases in2 set_enqueue(2) [of i r k now "''{}''" ?d2] by (auto simp: new_job_def)
qed

lemma repair_kinds_rows:
  "(i, r) \<in> set (t_jobs d) \<Longrightarrow> j_state r \<noteq> JDead \<Longrightarrow> (i, r) \<in> set (t_jobs (fold (repair_kind now) ks d))"
  "(i, r) \<in> set (t_jobs (fold (repair_kind now) ks d)) \<Longrightarrow> (i, r) \<in> set (t_jobs d) \<or> j_state r = JQueued"
  by (induction ks arbitrary: d) (auto dest: repair_kind_rows)

lemma repair_janitor_rows:
  "(i, r) \<in> set (t_jobs d) \<Longrightarrow> (i, r) \<in> set (t_jobs (repair_janitor now d))"
  "(i, r) \<in> set (t_jobs (repair_janitor now d)) \<Longrightarrow> (i, r) \<in> set (t_jobs d) \<or> j_state r = JQueued"
  using set_enqueue(1) [of d Janitor now "''{}''"] set_enqueue(2) [of i r Janitor now "''{}''" d]
  by (auto simp: repair_janitor_def new_job_def split: if_splits)

definition unstrand :: "int \<Rightarrow> job_row \<Rightarrow> job_row" where
  "unstrand now r =
     (if \<not> stale_since (strand_cutoff now) r then r
      else if 64 \<le> j_strands r
      then r\<lparr>j_state := JDead, j_last_error := Some ''stranded: isolate died 64x without a completed slice''\<rparr>
      else r\<lparr>j_state := JQueued, j_run_at := now, j_strands := j_strands r + 1,
             j_last_error := Some ''stranded mid-slice'', j_lease := None\<rparr>)"

lemma repair_strands_map: "t_jobs (repair_strands now d) = map (\<lambda>(i, r). (i, unstrand now r)) (t_jobs d)"
  by (simp add: repair_strands_def Let_def tbl_update_def comp_def split_beta unstrand_def stale_since_def not_le)

lemma unstrand_not_stale: "\<not> stale_since (strand_cutoff now) (unstrand now r)"
  by (simp add: unstrand_def stale_since_def)

lemma repair_strands_rows:
  "(i, r) \<in> set (t_jobs d) \<Longrightarrow> \<not> stale_since (strand_cutoff now) r \<Longrightarrow> (i, r) \<in> set (t_jobs (repair_strands now d))"
  "(i, r) \<in> set (t_jobs (repair_strands now d)) \<Longrightarrow> \<not> stale_since (strand_cutoff now) r"
  by (force simp: repair_strands_map unstrand_def)
    (auto simp: repair_strands_map unstrand_not_stale)

lemma janitor_present: "\<exists>(i, r) \<in> set (t_jobs (repair_janitor now d)). in_flight ''janitor'' i r"
  using enqueue_queued [of Janitor now "''{}''" d]
  by (auto simp: repair_janitor_def queued_def in_flight_def tbl_count_def filter_empty_conv)



lemma job_kind_roundtrip [simp]: "job_kind_of (kind_str k) = Inr k"
  by (cases k) (simp_all add: job_kind_of_def)

lemma rearm_None: "rearm d = None \<longleftrightarrow> (\<forall>(i, r) \<in> set (t_jobs d). j_state r \<noteq> JQueued)"
  by (auto simp: rearm_def filter_empty_conv)

lemma rearm_Some:
  "rearm d = Some t \<Longrightarrow> (\<exists>i r. (i, r) \<in> set (t_jobs d) \<and> j_state r = JQueued \<and> j_run_at r = t)
     \<and> (\<forall>i r. (i, r) \<in> set (t_jobs d) \<and> j_state r = JQueued \<longrightarrow> t \<le> j_run_at r)"
  unfolding rearm_def by (fastforce dest!: min_by_Some)

lemma pick_due:
  assumes "pick_row now Due d = Some (i, r)"
  shows "(i, r) \<in> set (t_jobs d) \<and> j_state r = JQueued \<and> j_run_at r \<le> now
    \<and> (\<forall>k q. (k, q) \<in> set (t_jobs d) \<and> j_state q = JQueued \<longrightarrow> (j_run_at r, i) \<le> (j_run_at q, k))"
proof -
  let ?l = "filter (\<lambda>(i, r). j_state r = JQueued \<and> j_run_at r \<le> now) (t_jobs d)"
  have m: "min_by (\<lambda>(i, r). (j_run_at r, i)) ?l = Some (i, r)"
    using assms by (simp add: pick_row_def)
  have here: "(i, r) \<in> set ?l" and least: "\<forall>y \<in> set ?l. (j_run_at r, i) \<le> (case y of (k, q) \<Rightarrow> (j_run_at q, k))"
    using min_by_Some [OF m] by auto
  have "(j_run_at r, i) \<le> (j_run_at q, k)" if q: "(k, q) \<in> set (t_jobs d)" "j_state q = JQueued" for k q
  proof (cases "j_run_at q \<le> now")
    case True
    then show ?thesis using q bspec [OF least, of "(k, q)"] by simp
  next
    case False
    then show ?thesis using here by auto
  qed
  with here show ?thesis by auto
qed

lemma claim_due:
  assumes "jobs_ok d" and p: "pick_row now Due d = Some (i, r)" and k: "j_kind r = kind_str k"
  shows "\<exists>d' j. claim now lease Due d = (d', Inr (Some j)) \<and> jb_id j = i \<and> jb_kind j = k \<and> jb_run_at j = j_run_at r
    \<and> lease_held d' j"
proof -
  let ?P = "\<lambda>j r'. j = i \<and> j_state r' = JQueued"
  from pick_due [OF p] have r: "(i, r) \<in> set (t_jobs d)" "j_state r = JQueued" by auto
  have "map_of (t_jobs d) i = Some r"
    using assms(1) r by (auto simp: jobs_ok_def tbl_ok_def)
  then have "tbl_count ?P (t_jobs d) = 1"
    using assms(1) r tbl_count_key [of "t_jobs d" i "\<lambda>r'. j_state r' = JQueued"] by (simp add: jobs_ok_def)
  then show ?thesis
    using r by (force simp: claim_def Let_def p k lease_held_iff fence_def set_tbl_update)
qed

text \<open>
  C16. No lost wake-up: the alarm is cleared exactly when nothing is queued, and at any moment from
  the alarm on, a dispatch claims a row under its lease, the one that is due first (ties to the
  older row).
\<close>

theorem alarm_finds_work:
  assumes ok: "jobs_ok d" and kinds: "\<forall>(i, r) \<in> set (t_jobs d). \<exists>k. j_kind r = kind_str k"
  shows "case rearm d of
     None \<Rightarrow> (\<forall>(i, r) \<in> set (t_jobs d). j_state r \<noteq> JQueued)
   | Some t \<Rightarrow> t \<le> now \<longrightarrow> (\<exists>d' j. claim now lease Due d = (d', Inr (Some j)) \<and> lease_held d' j \<and> jb_run_at j = t
       \<and> (\<forall>i r. (i, r) \<in> set (t_jobs d) \<and> j_state r = JQueued \<longrightarrow> (t, jb_id j) \<le> (j_run_at r, i)))"
proof (cases "rearm d")
  case None
  then have "\<forall>(i, r) \<in> set (t_jobs d). j_state r \<noteq> JQueued" by (simp only: rearm_None)
  with None show ?thesis by (simp only: option.case)
next
  case (Some t)
  note first = rearm_Some [OF Some]
  have "\<exists>d' j. claim now lease Due d = (d', Inr (Some j)) \<and> lease_held d' j \<and> jb_run_at j = t
       \<and> (\<forall>i r. (i, r) \<in> set (t_jobs d) \<and> j_state r = JQueued \<longrightarrow> (t, jb_id j) \<le> (j_run_at r, i))" if "t \<le> now"
  proof -
    from first that have "filter (\<lambda>(i, r). j_state r = JQueued \<and> j_run_at r \<le> now) (t_jobs d) \<noteq> []"
      by (fastforce simp: filter_empty_conv)
    from min_by_ex [OF this, of "\<lambda>(i, r). (j_run_at r, i)"]
    obtain i r where p: "pick_row now Due d = Some (i, r)" by (auto simp: pick_row_def)
    note due = pick_due [OF p]
    from first obtain i0 r0 where "(i0, r0) \<in> set (t_jobs d)" "j_state r0 = JQueued" "j_run_at r0 = t" by blast
    with due have "(j_run_at r, i) \<le> (t, i0)" by blast
    moreover have "t \<le> j_run_at r" using first due by blast
    ultimately have t: "j_run_at r = t" by auto
    from kinds due obtain k where "j_kind r = kind_str k" by blast
    from claim_due [OF ok p this, of lease] obtain d' j where
      "claim now lease Due d = (d', Inr (Some j))" "jb_id j = i" "jb_run_at j = t" "lease_held d' j"
      unfolding t by blast
    moreover have "\<forall>k q. (k, q) \<in> set (t_jobs d) \<and> j_state q = JQueued \<longrightarrow> (t, i) \<le> (j_run_at q, k)"
      using due unfolding t by blast
    ultimately show ?thesis by blast
  qed
  with Some show ?thesis by simp
qed

theorem alarm_finds_work_witness:
  "rearm run_d2 = Some 100000 \<and> (\<exists>d' j. claim 100000 ''b2'' Due run_d2 = (d', Inr (Some j)) \<and> lease_held d' j \<and> jb_run_at j = 100000)"
proof -
  have r: "rearm run_d2 = Some 100000" by (simp add: rearm_def run_defs)
  have "jobs_ok run_d2" by (simp add: jobs_ok_def tbl_ok_def job_row_ok_def run_defs)
  moreover have "\<forall>(i, r) \<in> set (t_jobs run_d2). \<exists>k. j_kind r = kind_str k"
    by (simp add: run_defs) (rule exI [of _ Janitor], simp)
  ultimately show ?thesis
    using alarm_finds_work [of run_d2 100000 "''b2''"] r by auto
qed

end
