(* ===== verification/Compact.thy ===== *)
theory Compact
  imports Jobs
begin

text \<open>
  Pack compaction, \<open>server/src/jobs/compact.rs\<close>: which live packs form a cohort, when the next cohort
  becomes old enough, the strike map that keeps failing packs out, and the trigger a committed
  push calls.
\<close>

section \<open>Definitions\<close>

definition BASE_N :: int where "BASE_N = 8"
definition LADDER :: int where "LADDER = 16"
definition TIERS :: nat where "TIERS = 5"
definition MAX_BYTES :: int where "MAX_BYTES = 64 * 2 ^ 20"
definition COHORT_BYTES :: int where "COHORT_BYTES = 256 * 2 ^ 20"
definition QUAR_CAP :: nat where "QUAR_CAP = 256"

record knobs =
  fanin :: int
  min_age_ms :: int
  max_rows :: int

definition knobs_of :: "ext \<Rightarrow> knobs" where
  "knobs_of X =
     \<lparr>fanin = max (env_i64 X ''GE_COMPACT_FANIN'' 16) 2,
      min_age_ms = env_i64 X ''GE_COMPACT_MIN_AGE_MS'' 60000,
      max_rows = env_i64 X ''GE_COMPACT_MAX_ROWS'' 100000\<rparr>"

record live_pack =
  lp_id :: string
  lp_count :: int
  lp_bytes :: int
  lp_created_at :: int

function tier_loop :: "int \<Rightarrow> nat \<Rightarrow> int \<Rightarrow> nat" where
  "tier_loop count t bound =
     (if bound \<le> count \<and> t < TIERS - 1 then tier_loop count (t + 1) (sat_i64 (bound * LADDER)) else t)"
  by pat_completeness auto
termination
  by (relation "measure (\<lambda>(count, t, bound). TIERS - t)") (auto simp: TIERS_def)

declare tier_loop.simps [simp del]

definition tier :: "int \<Rightarrow> nat" where
  "tier count = tier_loop count 0 BASE_N"

text \<open>Division of an \<open>i64\<close> by two truncates towards zero.\<close>

definition half :: "int \<Rightarrow> int" where
  "half n = (if n < 0 then - (- n div 2) else n div 2)"

text \<open>The part of \<open>eligible\<close> that does not depend on the clock, shared with \<open>next_wake\<close>.\<close>

definition admissible :: "live_pack \<Rightarrow> string set \<Rightarrow> knobs \<Rightarrow> bool" where
  "admissible p quarantined K \<longleftrightarrow>
     1 \<le> lp_count p \<and> lp_count p \<le> half (max_rows K) \<and> lp_bytes p < MAX_BYTES \<and> lp_id p \<notin> quarantined"

definition eligible :: "live_pack \<Rightarrow> string set \<Rightarrow> int \<Rightarrow> knobs \<Rightarrow> bool" where
  "eligible p quarantined cutoff K \<longleftrightarrow>
     1 \<le> lp_count p \<and> lp_count p \<le> half (max_rows K) \<and> lp_bytes p < MAX_BYTES
     \<and> lp_created_at p \<le> cutoff \<and> lp_id p \<notin> quarantined"

definition per_tier :: "(live_pack \<Rightarrow> bool) \<Rightarrow> live_pack list \<Rightarrow> nat \<Rightarrow> live_pack list" where
  "per_tier P packs i = filter (\<lambda>p. P p \<and> tier (lp_count p) = i) packs"

definition fan :: "knobs \<Rightarrow> nat" where
  "fan K = max (if 0 \<le> fanin K then nat (fanin K) else 2) 2"

text \<open>The tier loop: the first tier of greatest size among those with at least \<open>t\<close> packs.\<close>

fun best_tier :: "(nat \<Rightarrow> 'a list) \<Rightarrow> nat \<Rightarrow> nat list \<Rightarrow> nat option \<Rightarrow> nat option" where
  "best_tier ts t [] best = best"
| "best_tier ts t (i # is) best =
     best_tier ts t is
       (if t \<le> length (ts i) \<and> (case best of None \<Rightarrow> True | Some b \<Rightarrow> length (ts b) < length (ts i))
        then Some i else best)"

text \<open>The greedy loop; it stops at the first pack that does not fit.\<close>

fun take_cohort :: "nat \<Rightarrow> int \<Rightarrow> nat \<Rightarrow> int \<Rightarrow> int \<Rightarrow> live_pack list \<Rightarrow> live_pack list" where
  "take_cohort t mx n rows bytes [] = []"
| "take_cohort t mx n rows bytes (p # ps) =
     (if 2 * t \<le> n \<or> mx < sat_i64 (rows + lp_count p) \<or> COHORT_BYTES < sat_i64 (bytes + lp_bytes p) then []
      else p # take_cohort t mx (Suc n) (sat_i64 (rows + lp_count p)) (sat_i64 (bytes + lp_bytes p)) ps)"

definition select_cohort :: "live_pack list \<Rightarrow> string set \<Rightarrow> int \<Rightarrow> knobs \<Rightarrow> live_pack list option" where
  "select_cohort packs quarantined now K =
     (let cutoff = sat_i64 (now - min_age_ms K);
          ts = per_tier (\<lambda>p. eligible p quarantined cutoff K) packs;
          t = fan K
      in case best_tier ts t [0 ..< TIERS] None of
           None \<Rightarrow> None
         | Some b \<Rightarrow>
             let out = take_cohort t (max_rows K) 0 0 0 (sort_key (\<lambda>p. (lp_created_at p, lp_id p)) (ts b))
             in if 2 \<le> length out then Some out else None)"

definition next_wake :: "live_pack list \<Rightarrow> string set \<Rightarrow> knobs \<Rightarrow> int option" where
  "next_wake packs quarantined K =
     (let times = (\<lambda>i. sort (map (\<lambda>p. sat_i64 (lp_created_at p + min_age_ms K))
                                 (per_tier (\<lambda>p. admissible p quarantined K) packs i)));
          t = fan K;
          ws = concat (map (\<lambda>i. if t - 1 < length (times i) then [times i ! (t - 1)] else []) [0 ..< TIERS])
      in if ws = [] then None else Some (Min (set ws)))"

definition live_packs :: "db \<Rightarrow> live_pack list" where
  "live_packs d =
     map (\<lambda>(i, k). \<lparr>lp_id = i, lp_count = k_count k, lp_bytes = k_bytes k, lp_created_at = k_created_at k\<rparr>)
       (filter (\<lambda>(i, k). k_state k = Live) (t_packs d))"

text \<open>
  The strike map. Its stored form is JSON; \<open>parse\<close> is serde's reading of it, None on a corrupt value.
\<close>

definition quarantine_read :: "(string \<Rightarrow> (string \<times> int) list option) \<Rightarrow> db \<Rightarrow> (string \<times> int) list option" where
  "quarantine_read parse d =
     (case meta_opt d ''compact.quarantine'' of None \<Rightarrow> Some [] | Some s \<Rightarrow> parse s)"

definition quarantine_load :: "(string \<Rightarrow> (string \<times> int) list option) \<Rightarrow> db \<Rightarrow> (string \<times> int) list" where
  "quarantine_load parse d = (case quarantine_read parse d of None \<Rightarrow> [] | Some q \<Rightarrow> q)"

definition quarantine_corrupt :: "db \<Rightarrow> db \<times> (string \<times> int) list" where
  "quarantine_corrupt d =
     (case meta_opt d ''compact.quarantine'' of
        None \<Rightarrow> (d, [])
      | Some raw \<Rightarrow> (meta_put_new ''compact.quarantine.corrupt'' raw d, []))"

definition quarantine_ids :: "(string \<times> int) list \<Rightarrow> string set" where
  "quarantine_ids q = set (map fst (filter (\<lambda>(_, n). 2 \<le> n) q))"

fun bump_first :: "string \<Rightarrow> int \<Rightarrow> (string \<times> int) list \<Rightarrow> (string \<times> int) list option" where
  "bump_first i n [] = None"
| "bump_first i n ((p, m) # q) =
     (if p = i then Some ((p, sat_i64 (m + n)) # q) else map_option (\<lambda>q'. (p, m) # q') (bump_first i n q))"

definition quarantine_bump :: "string \<Rightarrow> int \<Rightarrow> (string \<times> int) list \<Rightarrow> (string \<times> int) list" where
  "quarantine_bump i n q =
     (let q' = (case bump_first i n q of Some q1 \<Rightarrow> q1 | None \<Rightarrow> q @ [(i, n)])
      in if QUAR_CAP < length q' then drop 1 q' else q')"

definition trigger :: "ext \<Rightarrow> (string \<Rightarrow> (string \<times> int) list option) \<Rightarrow> int \<Rightarrow> db \<Rightarrow> db" where
  "trigger X parse now d =
     (let packs = live_packs d;
          quarantined = quarantine_ids (quarantine_load parse d);
          K = knobs_of X;
          run_at = (if select_cohort packs quarantined now K \<noteq> None then Some now else next_wake packs quarantined K)
      in case run_at of
           None \<Rightarrow> d
         | Some t \<Rightarrow>
             let d1 = enqueue GcCompact t ''{}'' d
             in d1\<lparr>t_jobs := tbl_update (\<lambda>_ r. queued ''gc_compact'' 0 r \<and> j_attempts r = 0 \<and> j_last_error r = None
                                              \<and> j_started_at r = None)
                                (\<lambda>r. r\<lparr>j_run_at := min (j_run_at r) t\<rparr>) (t_jobs d1)\<rparr>)"

text \<open>The owner of the chain in flight, from the recorded mode and phase.\<close>

definition owner_kind :: "string option \<Rightarrow> string option \<Rightarrow> job_kind" where
  "owner_kind mode phase =
     (if phase = Some ''sweep'' then GcSweep
      else if phase = Some ''build'' then GcConsolidate
      else if mode = Some ''compact'' then GcConsolidate
      else GcMark)"

section \<open>Tiers\<close>

lemma tier_loop_le: "t \<le> TIERS - 1 \<Longrightarrow> tier_loop count t bound \<le> TIERS - 1"
proof (induction count t bound rule: tier_loop.induct)
  case (1 count t bound)
  then show ?case by (subst tier_loop.simps) auto
qed

lemma tier_less: "tier count < TIERS"
  using tier_loop_le [of 0 count BASE_N] by (simp add: tier_def TIERS_def)

text \<open>The ladder the loop climbs: the object counts at which a pack moves up a tier.\<close>

lemma tier_ladder:
  "tier count = (if count < 8 then 0 else if count < 128 then 1 else if count < 2048 then 2
                 else if count < 32768 then 3 else 4)"
proof -
  have 4: "tier_loop count 4 b = 4" for b
    by (subst tier_loop.simps) (simp add: TIERS_def)
  have 3: "tier_loop count 3 32768 = (if 32768 \<le> count then 4 else 3)"
    by (subst tier_loop.simps) (simp add: TIERS_def 4)
  have 2: "tier_loop count 2 2048 = (if 2048 \<le> count then tier_loop count 3 32768 else 2)"
    by (subst tier_loop.simps) (simp add: TIERS_def LADDER_def sat_i64_def)
  have 1: "tier_loop count 1 128 = (if 128 \<le> count then tier_loop count 2 2048 else 1)"
    by (subst tier_loop.simps) (simp add: TIERS_def LADDER_def sat_i64_def flip: numeral_2_eq_2)
  have 0: "tier_loop count 0 8 = (if 8 \<le> count then tier_loop count 1 128 else 0)"
    by (subst tier_loop.simps) (simp add: TIERS_def LADDER_def sat_i64_def)
  show ?thesis
    unfolding tier_def BASE_N_def 0 1 2 3 by auto
qed

lemma best_tier_sound:
  assumes "best_tier ts t is best = Some b" and "\<And>a. best = Some a \<Longrightarrow> t \<le> length (ts a)"
  shows "t \<le> length (ts b) \<and> (best = Some b \<or> b \<in> set is)"
  using assms
proof (induction "is" arbitrary: best)
  case (Cons i "is")
  let ?best = "if t \<le> length (ts i) \<and> (case best of None \<Rightarrow> True | Some b \<Rightarrow> length (ts b) < length (ts i)) then Some i else best"
  have "t \<le> length (ts b) \<and> (?best = Some b \<or> b \<in> set is)"
    by (rule Cons.IH) (use Cons.prems in \<open>simp_all split: if_splits\<close>)
  then show ?case by (auto split: if_splits)
qed simp

lemma best_tier_None: "best_tier ts t is best = None \<longleftrightarrow> best = None \<and> (\<forall>i \<in> set is. length (ts i) < t)"
  by (induction "is" arbitrary: best) (auto split: if_splits)

lemma sorted_nth_count:
  "sorted xs \<Longrightarrow> k < length xs \<and> xs ! k \<le> a \<longleftrightarrow> k < length (filter (\<lambda>x. x \<le> a) xs)"
proof (induction xs arbitrary: k)
  case (Cons x xs)
  show ?case
  proof (cases "x \<le> a")
    case True
    then show ?thesis using Cons by (cases k) auto
  next
    case False
    then have none: "filter (\<lambda>x. x \<le> a) xs = []" using Cons.prems by (auto simp: filter_empty_conv)
    show ?thesis
    proof (cases k)
      case (Suc j)
      then show ?thesis using Cons none False by simp
    qed (simp add: False none)
  qed
qed simp

section \<open>Cohorts\<close>

text \<open>Values in the range where no \<open>i64\<close> saturates.\<close>

definition knobs_ok :: "knobs \<Rightarrow> bool" where
  "knobs_ok K \<longleftrightarrow> 2 \<le> fanin K \<and> max_rows K \<le> 2 ^ 61 \<and> \<bar>min_age_ms K\<bar> \<le> 2 ^ 61"

definition pack_ok :: "live_pack \<Rightarrow> bool" where
  "pack_ok p \<longleftrightarrow> 0 \<le> lp_bytes p \<and> \<bar>lp_created_at p\<bar> \<le> 2 ^ 61"

lemma eligible_admissible: "eligible p q c K \<longleftrightarrow> admissible p q K \<and> lp_created_at p \<le> c"
  by (auto simp: eligible_def admissible_def)

lemma half_twice: "2 * half n \<le> max n 0"
proof (cases "n < 0")
  case False
  moreover have "2 * (n div 2) \<le> n" by presburger
  ultimately show ?thesis by (simp add: half_def)
qed (simp add: half_def)

lemma admissible_bounds:
  assumes "admissible p q K" and "knobs_ok K"
  shows "1 \<le> lp_count p" "2 * lp_count p \<le> max_rows K" "lp_count p \<le> 2 ^ 60" "lp_bytes p < 64 * 2 ^ 20"
proof -
  show "1 \<le> lp_count p" and b: "lp_bytes p < 64 * 2 ^ 20"
    using assms by (auto simp: admissible_def MAX_BYTES_def)
  then show "2 * lp_count p \<le> max_rows K"
    using assms half_twice [of "max_rows K"] by (auto simp: admissible_def max_def split: if_splits)
  then show "lp_count p \<le> 2 ^ 60" using assms by (simp add: knobs_ok_def)
qed

lemma take_cohort_prefix: "\<exists>rest. ps = take_cohort t mx n rows bytes ps @ rest"
  by (induction ps arbitrary: n rows bytes) auto

lemma take_cohort_limits:
  assumes "\<forall>p \<in> set ps. admissible p q K \<and> pack_ok p" and "knobs_ok K"
    and "0 \<le> rows" "rows \<le> max 0 (max_rows K)" "0 \<le> bytes" "bytes \<le> COHORT_BYTES" "n \<le> 2 * t"
  shows "n + length (take_cohort t (max_rows K) n rows bytes ps) \<le> 2 * t
    \<and> rows + sum_list (map lp_count (take_cohort t (max_rows K) n rows bytes ps)) \<le> max 0 (max_rows K)
    \<and> bytes + sum_list (map lp_bytes (take_cohort t (max_rows K) n rows bytes ps)) \<le> COHORT_BYTES"
  using assms
proof (induction ps arbitrary: n rows bytes)
  case (Cons p ps)
  from Cons.prems(1,2) admissible_bounds [of p q K] have p: "1 \<le> lp_count p" "lp_count p \<le> 2 ^ 60" "lp_bytes p < 64 * 2 ^ 20" "0 \<le> lp_bytes p"
    by (auto simp: pack_ok_def)
  have sats: "sat_i64 (rows + lp_count p) = rows + lp_count p" "sat_i64 (bytes + lp_bytes p) = bytes + lp_bytes p"
    using p Cons.prems by (auto intro!: sat_i64_id simp: knobs_ok_def COHORT_BYTES_def)
  show ?case
  proof (cases "2 * t \<le> n \<or> max_rows K < rows + lp_count p \<or> COHORT_BYTES < bytes + lp_bytes p")
    case True
    then show ?thesis using Cons.prems by (simp add: sats)
  next
    case False
    have "Suc n + length (take_cohort t (max_rows K) (Suc n) (rows + lp_count p) (bytes + lp_bytes p) ps) \<le> 2 * t
      \<and> rows + lp_count p + sum_list (map lp_count (take_cohort t (max_rows K) (Suc n) (rows + lp_count p) (bytes + lp_bytes p) ps)) \<le> max 0 (max_rows K)
      \<and> bytes + lp_bytes p + sum_list (map lp_bytes (take_cohort t (max_rows K) (Suc n) (rows + lp_count p) (bytes + lp_bytes p) ps)) \<le> COHORT_BYTES"
      by (rule Cons.IH) (use False Cons.prems p in auto)
    with False show ?thesis by (simp add: sats)
  qed
qed auto

lemma take_cohort_two:
  assumes "\<forall>p \<in> set ps. admissible p q K \<and> pack_ok p" and K: "knobs_ok K" and "2 \<le> t" "t \<le> length ps"
  shows "2 \<le> length (take_cohort t (max_rows K) 0 0 0 ps)"
proof -
  from assms obtain a b rest where ps: "ps = a # b # rest"
    by (cases ps; cases "tl ps") auto
  with assms have a: "admissible a q K" "pack_ok a" and b: "admissible b q K" "pack_ok b" by auto
  note A = admissible_bounds [OF a(1) K] and B = admissible_bounds [OF b(1) K]
  have "sat_i64 (lp_count a) = lp_count a" "sat_i64 (lp_count a + lp_count b) = lp_count a + lp_count b"
    "sat_i64 (lp_bytes a) = lp_bytes a" "sat_i64 (lp_bytes a + lp_bytes b) = lp_bytes a + lp_bytes b"
    using A B a b by (auto intro!: sat_i64_id simp: pack_ok_def)
  then show ?thesis
    using A B a b assms(3) by (simp add: ps COHORT_BYTES_def pack_ok_def)
qed

lemma fan_ge: "knobs_ok K \<Longrightarrow> 2 \<le> fan K"
  by (simp add: fan_def)

lemma per_tier_eligible:
  "p \<in> set (per_tier (\<lambda>p. eligible p q c K) packs i) \<longleftrightarrow>
     p \<in> set packs \<and> eligible p q c K \<and> tier (lp_count p) = i"
  by (auto simp: per_tier_def)

lemma cohort_of_tier:
  assumes "select_cohort packs q now K = Some c"
  obtains b where "b < TIERS"
    and "c = take_cohort (fan K) (max_rows K) 0 0 0
          (sort_key (\<lambda>p. (lp_created_at p, lp_id p)) (per_tier (\<lambda>p. eligible p q (sat_i64 (now - min_age_ms K)) K) packs b))"
    and "2 \<le> length c"
proof -
  let ?ts = "per_tier (\<lambda>p. eligible p q (sat_i64 (now - min_age_ms K)) K) packs"
  from assms obtain b where b: "best_tier ?ts (fan K) [0 ..< TIERS] None = Some b"
    and c: "c = take_cohort (fan K) (max_rows K) 0 0 0 (sort_key (\<lambda>p. (lp_created_at p, lp_id p)) (?ts b))" "2 \<le> length c"
    by (auto simp: select_cohort_def Let_def split: option.splits if_splits)
  from best_tier_sound [OF b] have "b < TIERS" by simp
  with c that show ?thesis by blast
qed

text \<open>
  C17. A cohort the selector returns holds between two and twice the fan-in packs, all live packs
  given to it, all of one tier and all eligible (old enough, within the size limits, not
  quarantined); together they stay within the row and byte budgets; and no eligible pack of that
  tier left out is older than one taken.
\<close>

theorem cohort_sound:
  assumes sel: "select_cohort packs q now K = Some c" and K: "knobs_ok K" and ok: "list_all pack_ok packs"
  shows "2 \<le> length c \<and> length c \<le> 2 * fan K
    \<and> sum_list (map lp_count c) \<le> max_rows K \<and> sum_list (map lp_bytes c) \<le> COHORT_BYTES
    \<and> (\<exists>b. \<forall>p \<in> set c. p \<in> set packs \<and> tier (lp_count p) = b \<and> eligible p q (sat_i64 (now - min_age_ms K)) K
         \<and> (\<forall>r \<in> set packs. tier (lp_count r) = b \<and> eligible r q (sat_i64 (now - min_age_ms K)) K \<and> r \<notin> set c \<longrightarrow>
               (lp_created_at p, lp_id p) \<le> (lp_created_at r, lp_id r)))"
proof -
  let ?c = "sat_i64 (now - min_age_ms K)" and ?k = "\<lambda>p. (lp_created_at p, lp_id p)"
  let ?L = "\<lambda>b. sort_key ?k (per_tier (\<lambda>p. eligible p q ?c K) packs b)"
  obtain b where c: "c = take_cohort (fan K) (max_rows K) 0 0 0 (?L b)" and two: "2 \<le> length c"
    using cohort_of_tier [OF sel] by metis
  have L: "p \<in> set (?L b) \<longleftrightarrow> p \<in> set packs \<and> eligible p q ?c K \<and> tier (lp_count p) = b" for p
    by (simp add: per_tier_eligible)
  have good: "\<forall>p \<in> set (?L b). admissible p q K \<and> pack_ok p"
    using ok by (auto simp: per_tier_def eligible_admissible list_all_iff)
  have lim: "length c \<le> 2 * fan K" "sum_list (map lp_count c) \<le> max 0 (max_rows K)" "sum_list (map lp_bytes c) \<le> COHORT_BYTES"
    using take_cohort_limits [OF good K, of 0 0 0 "fan K"] by (simp_all add: c COHORT_BYTES_def)
  obtain rest where split: "?L b = c @ rest" unfolding c using take_cohort_prefix by blast
  have mem: "p \<in> set packs \<and> tier (lp_count p) = b \<and> eligible p q ?c K" if "p \<in> set c" for p
    using that L [of p] unfolding split by simp
  have "sorted (map ?k (?L b))" by simp
  then have "?k p \<le> ?k r" if "p \<in> set c" "r \<in> set rest" for p r
    unfolding split using that by (auto simp: sorted_append)
  moreover have "r \<in> set rest" if "r \<in> set packs" "tier (lp_count r) = b" "eligible r q ?c K" "r \<notin> set c" for r
    using that L [of r] unfolding split by simp
  moreover from two obtain p where "p \<in> set c" by (cases c) auto
  with mem K have "0 \<le> max_rows K" using admissible_bounds [of p q K] by (force simp: eligible_admissible)
  with lim have "sum_list (map lp_count c) \<le> max_rows K" by simp
  ultimately show ?thesis using two lim mem by (intro conjI exI [of _ b]) blast+
qed

definition two_packs :: "live_pack list" where
  "two_packs = [\<lparr>lp_id = ''b'', lp_count = 3, lp_bytes = 40, lp_created_at = 7\<rparr>,
                \<lparr>lp_id = ''a'', lp_count = 5, lp_bytes = 90, lp_created_at = 2\<rparr>]"

definition small_knobs :: knobs where
  "small_knobs = \<lparr>fanin = 2, min_age_ms = 100, max_rows = 20\<rparr>"

lemma small_ok: "knobs_ok small_knobs" "list_all pack_ok two_packs"
  by (simp_all add: knobs_ok_def small_knobs_def two_packs_def pack_ok_def)

theorem cohort_sound_witness:
  "select_cohort two_packs {} 200 small_knobs = Some (rev two_packs)
   \<and> sum_list (map lp_count (rev two_packs)) \<le> 20 \<and> length (rev two_packs) \<le> 2 * fan small_knobs"
proof -
  have "select_cohort two_packs {} 200 small_knobs = Some (rev two_packs)" by code_simp
  from cohort_sound [OF this small_ok] this show ?thesis by (simp add: small_knobs_def)
qed

lemma cohort_exists:
  assumes K: "knobs_ok K" and ok: "list_all pack_ok packs"
  shows "select_cohort packs q now K \<noteq> None \<longleftrightarrow>
    (\<exists>i < TIERS. fan K \<le> length (per_tier (\<lambda>p. eligible p q (sat_i64 (now - min_age_ms K)) K) packs i))"
proof -
  let ?ts = "per_tier (\<lambda>p. eligible p q (sat_i64 (now - min_age_ms K)) K) packs"
  show ?thesis
  proof (cases "best_tier ?ts (fan K) [0 ..< TIERS] None")
    case None
    then have "\<forall>i < TIERS. length (?ts i) < fan K" by (auto simp: best_tier_None)
    moreover have "select_cohort packs q now K = None" using None by (simp add: select_cohort_def Let_def)
    ultimately show ?thesis by (auto simp: not_le)
  next
    case (Some b)
    let ?l = "sort_key (\<lambda>p. (lp_created_at p, lp_id p)) (?ts b)"
    from best_tier_sound [OF Some] have b: "fan K \<le> length (?ts b)" "b < TIERS" by auto
    have "\<forall>p \<in> set ?l. admissible p q K \<and> pack_ok p"
      using ok by (auto simp: per_tier_def eligible_admissible list_all_iff)
    from take_cohort_two [OF this K fan_ge [OF K]] b
    have "2 \<le> length (take_cohort (fan K) (max_rows K) 0 0 0 ?l)" by simp
    then have "select_cohort packs q now K \<noteq> None" using Some by (simp add: select_cohort_def Let_def)
    with b show ?thesis by blast
  qed
qed

lemma next_wake_le:
  "(case next_wake packs q K of None \<Rightarrow> False | Some w \<Rightarrow> w \<le> now) \<longleftrightarrow>
     (\<exists>i < TIERS. fan K - 1 < length (filter (\<lambda>x. x \<le> now)
        (map (\<lambda>p. sat_i64 (lp_created_at p + min_age_ms K)) (per_tier (\<lambda>p. admissible p q K) packs i))))"
proof -
  let ?m = "\<lambda>i. map (\<lambda>p. sat_i64 (lp_created_at p + min_age_ms K)) (per_tier (\<lambda>p. admissible p q K) packs i)"
  let ?ws = "concat (map (\<lambda>i. if fan K - 1 < length (sort (?m i)) then [sort (?m i) ! (fan K - 1)] else []) [0 ..< TIERS])"
  have count: "length (filter (\<lambda>x. x \<le> now) (sort (?m i))) = length (filter (\<lambda>x. x \<le> now) (?m i))" for i
    by (simp add: filter_sort)
  have gen: "(case (if ws = [] then None else Some (Min (set ws))) of None \<Rightarrow> False | Some w \<Rightarrow> w \<le> now)
      \<longleftrightarrow> (\<exists>w \<in> set ws. w \<le> now)" for ws :: "int list"
    by (auto simp: Min_le_iff)
  have "(case next_wake packs q K of None \<Rightarrow> False | Some w \<Rightarrow> w \<le> now) \<longleftrightarrow> (\<exists>w \<in> set ?ws. w \<le> now)"
    unfolding next_wake_def Let_def gen ..
  also have "\<dots> \<longleftrightarrow> (\<exists>i < TIERS. fan K - 1 < length (sort (?m i)) \<and> sort (?m i) ! (fan K - 1) \<le> now)"
    by (auto split: if_splits)
  also have "\<dots> \<longleftrightarrow> (\<exists>i < TIERS. fan K - 1 < length (filter (\<lambda>x. x \<le> now) (?m i)))"
    unfolding count [symmetric] using sorted_nth_count [OF sorted_sort, of "fan K - 1" _ now] by blast
  finally show ?thesis .
qed

text \<open>
  C18. The selector and the wake-up agree exactly: a cohort exists at a moment if and only if the
  wake-up time is set and has come. So a job queued at \<open>next_wake\<close> runs at the first moment there is
  work for it, and no wake-up time means that waiting alone never makes a cohort.
\<close>

theorem next_wake_exact:
  assumes K: "knobs_ok K" and ok: "list_all pack_ok packs" and now: "\<bar>now\<bar> \<le> 2 ^ 61"
  shows "select_cohort packs q now K \<noteq> None \<longleftrightarrow> (case next_wake packs q K of None \<Rightarrow> False | Some w \<Rightarrow> w \<le> now)"
proof -
  have cut: "sat_i64 (now - min_age_ms K) = now - min_age_ms K"
    using K now by (intro sat_i64_id) (auto simp: knobs_ok_def)
  have "sat_i64 (lp_created_at p + min_age_ms K) = lp_created_at p + min_age_ms K" if "p \<in> set packs" for p
  proof -
    have "\<bar>lp_created_at p\<bar> \<le> 2 ^ 61" using ok that by (auto simp: list_all_iff pack_ok_def)
    then show ?thesis using K by (intro sat_i64_id) (auto simp: knobs_ok_def)
  qed
  then have same: "filter (\<lambda>p. sat_i64 (lp_created_at p + min_age_ms K) \<le> now) (per_tier (\<lambda>p. admissible p q K) packs i)
      = per_tier (\<lambda>p. eligible p q (now - min_age_ms K) K) packs i" for i
    unfolding per_tier_def filter_filter by (intro filter_cong) (auto simp: eligible_admissible)
  have "1 \<le> fan K" using fan_ge [OF K] by simp
  then show ?thesis
    unfolding next_wake_le cohort_exists [OF K ok] cut
    by (simp add: filter_map comp_def same Suc_le_eq [symmetric] del: length_map)
      (auto simp: Suc_diff_le)
qed

theorem next_wake_exact_witness:
  "next_wake two_packs {} small_knobs = Some 107
   \<and> select_cohort two_packs {} 107 small_knobs \<noteq> None \<and> select_cohort two_packs {} 106 small_knobs = None"
proof -
  have w: "next_wake two_packs {} small_knobs = Some 107" by code_simp
  show ?thesis
    using next_wake_exact [OF small_ok, of 107 "{}"] next_wake_exact [OF small_ok, of 106 "{}"] w by simp
qed

section \<open>The strike map and the trigger\<close>

lemma bump_first_length: "bump_first i n q = Some q' \<Longrightarrow> length q' = length q"
  by (induction q arbitrary: q') (auto split: if_splits)

lemma quarantine_bump_capped: "length q \<le> QUAR_CAP \<Longrightarrow> length (quarantine_bump i n q) \<le> QUAR_CAP"
  by (auto simp: quarantine_bump_def Let_def bump_first_length split: option.splits)

lemma trigger_frame: "same_repo d (trigger X parse now d)"
  unfolding trigger_def Let_def
  by (auto split: option.splits intro: same_repo_trans [OF enqueue_frame same_repo_jobs(1)])

lemma trigger_keeps: "jobs_ok d \<Longrightarrow> jobs_ok (trigger X parse now d)"
  by (auto simp: trigger_def Let_def job_row_ok_def split: option.splits intro!: jobs_ok_update enqueue_keeps)

interpretation trig: queue_op "\<lambda>(X, parse, now) d. trigger X parse now d"
  by unfold_locales (auto simp: trigger_frame trigger_keeps)

end
