(* ===== verification/Repo_Access.thy ===== *)
theory Repo_Access
  imports Compact
begin

text \<open>
  The administrative side of the repository object, \<open>server/src/repo_do/mod.rs\<close>: the per-owner
  registry, boot, tokens, deletion, the public flag, the object format, pins and protected
  patterns. A handler takes the database to a database and a result; the clock, fresh random
  identifiers and the sha1 of a token are arguments. JSON bodies arrive parsed and answers are
  returned as values.
\<close>

section \<open>SQL text matching\<close>

text \<open>\<open>LIKE 'p%'\<close> compares ASCII letters without case.\<close>

definition ascii_lower :: "char \<Rightarrow> char" where
  "ascii_lower c = (if 65 \<le> byte_val c \<and> byte_val c \<le> 90 then char_of (byte_val c + 32) else c)"

definition like_prefix :: "string \<Rightarrow> string \<Rightarrow> bool" where
  "like_prefix p s \<longleftrightarrow> map ascii_lower (take (length p) s) = map ascii_lower p"

section \<open>The owner registry\<close>

definition DEFAULT_MAX_REPOS_PER_OWNER :: int where "DEFAULT_MAX_REPOS_PER_OWNER = 50"

datatype http_method = Get | Post | OtherMethod

datatype owner_reply = OwnerClaimed "int option" int | OwnerReleased bool

definition claims :: "db \<Rightarrow> int" where
  "claims d = int (tbl_count (\<lambda>k _. like_prefix ''claim:'' k) (t_meta d))"

definition owner_route :: "ext \<Rightarrow> int \<Rightarrow> http_method \<Rightarrow> string \<Rightarrow> string option \<Rightarrow> string option \<Rightarrow> db \<Rightarrow> db \<times> owner_reply res" where
  "owner_route X now method path hdr_owner hdr_repo d =
     (case hdr_owner of None \<Rightarrow> (d, Inl (Internal ''owner route without identity'')) | Some owner \<Rightarrow>
      case hdr_repo of None \<Rightarrow> (d, Inl (Internal ''owner route without identity'')) | Some repo \<Rightarrow>
      if method = Post \<and> path = ''/_owner/claim'' then
        let cap = env_i64 X ''GE_QUOTA_MAX_REPOS_PER_OWNER'' DEFAULT_MAX_REPOS_PER_OWNER
        in if cap \<le> 0 then (d, Inr (OwnerClaimed None 0))
           else (let key = ''claim:'' @ repo;
                     inserted = (meta_opt d key = None);
                     d1 = meta_put_new key (int_dec now) d;
                     n = claims d1
                 in if inserted \<and> cap < n
                    then (meta_del key d1,
                          Inl (Limit (''owner '' @ owner @ '' has '' @ int_dec n @ '' repos, over GE_QUOTA_MAX_REPOS_PER_OWNER='' @ int_dec cap)))
                    else (d1, Inr (OwnerClaimed (Some n) cap)))
      else if method = Post \<and> path = ''/_owner/release'' then
        (meta_del (''claim:'' @ repo) d, Inr (OwnerReleased (meta_opt d (''claim:'' @ repo) \<noteq> None)))
      else (d, Inl NotFound))"

section \<open>Boot\<close>

record repo_meta =
  m_repo_id :: string
  m_owner :: string
  m_repo :: string
  m_head :: string
  m_refs_version :: int
  m_gc_epoch :: int
  m_deleted :: bool

definition need :: "db \<Rightarrow> string \<Rightarrow> string res" where
  "need d k = (case meta_opt d k of Some v \<Rightarrow> Inr v | None \<Rightarrow> Inl (Internal (''meta.'' @ k @ '' missing'')))"

definition need_i64 :: "db \<Rightarrow> string \<Rightarrow> int res" where
  "need_i64 d k =
     (case need d k of Inl e \<Rightarrow> Inl e
      | Inr v \<Rightarrow> (case parse_i64 v of Some n \<Rightarrow> Inr n | None \<Rightarrow> Inl (Internal (''meta.'' @ k))))"

text \<open>The meta a repository already has.\<close>

definition read_meta :: "string \<Rightarrow> db \<Rightarrow> repo_meta res" where
  "read_meta repo_id d =
     (case need d ''owner'' of Inl e \<Rightarrow> Inl e | Inr owner \<Rightarrow>
      case need d ''repo'' of Inl e \<Rightarrow> Inl e | Inr repo \<Rightarrow>
      case need d ''head'' of Inl e \<Rightarrow> Inl e | Inr head \<Rightarrow>
      case need_i64 d ''refs_version'' of Inl e \<Rightarrow> Inl e | Inr v \<Rightarrow>
      case need_i64 d ''gc_epoch'' of Inl e \<Rightarrow> Inl e | Inr g \<Rightarrow>
        Inr \<lparr>m_repo_id = repo_id, m_owner = owner, m_repo = repo, m_head = head, m_refs_version = v,
             m_gc_epoch = g, m_deleted = (meta_opt d ''deleted'' \<noteq> None)\<rparr>)"

text \<open>The first boot writes the identity and queues the janitor.\<close>

definition first_meta :: "string \<Rightarrow> string \<Rightarrow> string \<Rightarrow> int \<Rightarrow> db \<Rightarrow> db" where
  "first_meta repo_id owner repo now d =
     enqueue Janitor now ''{}''
       (fold (\<lambda>(k, v). meta_put_new k v)
          [(''repo_id'', repo_id), (''owner'', owner), (''repo'', repo), (''head'', ''refs/heads/main''),
           (''refs_version'', ''0''), (''gc_epoch'', ''0''), (''created_at'', int_dec now), (''schema_version'', ''1'')] d)"

text \<open>Boot of a tombstoned repository: requeue a stranded purge, keep one in the queue.\<close>

definition boot_deleted :: "int \<Rightarrow> db \<Rightarrow> db" where
  "boot_deleted now d =
     (let d1 = d\<lparr>t_jobs := tbl_update (\<lambda>_ r. j_kind r = ''purge_repo'' \<and> stale_since (strand_cutoff now) r)
                  (\<lambda>r. r\<lparr>j_state := JQueued, j_run_at := now, j_attempts := j_attempts r + 1,
                         j_last_error := Some ''stranded mid-slice''\<rparr>) (t_jobs d)\<rparr>
      in if tbl_count (in_flight ''purge_repo'') (t_jobs d1) = 0 then enqueue PurgeRepo now ''{}'' d1 else d1)"

definition boot_meta :: "string option \<Rightarrow> string option \<Rightarrow> string \<Rightarrow> int \<Rightarrow> db \<Rightarrow> db \<times> repo_meta res" where
  "boot_meta hdr_owner hdr_repo fresh now d =
     (case meta_opt d ''repo_id'' of
        Some repo_id \<Rightarrow> (d, read_meta repo_id d)
      | None \<Rightarrow>
          (case (hdr_owner, hdr_repo) of
             (Some owner, Some repo) \<Rightarrow>
               (first_meta fresh owner repo now d,
                Inr \<lparr>m_repo_id = fresh, m_owner = owner, m_repo = repo, m_head = ''refs/heads/main'',
                     m_refs_version = 0, m_gc_epoch = 0, m_deleted = False\<rparr>)
           | _ \<Rightarrow> (d, Inl (Internal ''boot without headers''))))"

definition boot :: "bool \<Rightarrow> string option \<Rightarrow> string option \<Rightarrow> string \<Rightarrow> int \<Rightarrow> db \<Rightarrow> db \<times> repo_meta res" where
  "boot booted hdr_owner hdr_repo fresh now d0 =
     (let d = (if booted then d0 else migrate d0)
      in case boot_meta hdr_owner hdr_repo fresh now d of
           (d1, Inl e) \<Rightarrow> (d1, Inl e)
         | (d1, Inr m) \<Rightarrow>
             let d2 = (if m_deleted m then boot_deleted now d1 else repair now d1)
             in (case (hdr_owner, hdr_repo) of
                   (Some o', Some r') \<Rightarrow>
                     if o' \<noteq> m_owner m \<or> r' \<noteq> m_repo m then (d2, Inl (Internal ''identity mismatch'')) else (d2, Inr m)
                 | _ \<Rightarrow> (d2, Inr m)))"

section \<open>Tokens\<close>

text \<open>The row of a token by its hash, read as missing once expired.\<close>

definition token_by_hash :: "string \<Rightarrow> db \<Rightarrow> token_row option" where
  "token_by_hash h d = map_option snd (find (\<lambda>(_, t). tk_hash t = h) (t_tokens d))"

definition live_token :: "string \<Rightarrow> int \<Rightarrow> db \<Rightarrow> token_row option" where
  "live_token h now d =
     (case token_by_hash h d of Some t \<Rightarrow> if token_live (tk_expires_at t) now then Some t else None | None \<Rightarrow> None)"

definition auth_lookup :: "int \<Rightarrow> string \<Rightarrow> db \<Rightarrow> token_row res" where
  "auth_lookup now h d = (case live_token h now d of Some t \<Rightarrow> Inr t | None \<Rightarrow> Inl Auth)"

record new_token =
  nt_name :: string
  nt_level :: string
  nt_scope :: "string option"
  nt_ttl_s :: "int option"

definition token_create :: "ext \<Rightarrow> int \<Rightarrow> string \<Rightarrow> string \<Rightarrow> (string \<Rightarrow> string) \<Rightarrow> new_token \<Rightarrow> db \<Rightarrow> db \<times> (string \<times> string \<times> token_row) res" where
  "token_create X now secret tid hash b d =
     (if nt_level b \<noteq> ''read'' \<and> nt_level b \<noteq> ''write'' then (d, Inl (Protocol ''level must be read or write''))
      else if nt_name b = [] \<or> 128 < length (nt_name b) then (d, Inl (Protocol ''name must be 1-128 bytes''))
      else case mint_scope (name_partial_ok X) (nt_scope b) of Inl e \<Rightarrow> (d, Inl e) | Inr scope \<Rightarrow>
           case mint_expiry (nt_ttl_s b) now of Inl e \<Rightarrow> (d, Inl e) | Inr expires \<Rightarrow>
           if 256 \<le> length (t_tokens d) then (d, Inl (Limit ''too many tokens (256 max)''))
           else (let token = ''ge_'' @ secret;
                     row = \<lparr>tk_hash = hash token, tk_level = nt_level b, tk_name = nt_name b, tk_created_at = now,
                            tk_scope = Some scope, tk_expires_at = expires\<rparr>
                 in (d\<lparr>t_tokens := t_tokens d @ [(tid, row)]\<rparr>, Inr (tid, token, row))))"

definition token_list :: "db \<Rightarrow> (string \<times> token_row) list" where
  "token_list d = sort_key (\<lambda>(_, t). tk_created_at t) (t_tokens d)"

definition token_revoke :: "string \<Rightarrow> db \<Rightarrow> db \<times> bool" where
  "token_revoke tid d = (d\<lparr>t_tokens := tbl_del tid (t_tokens d)\<rparr>, map_of (t_tokens d) tid \<noteq> None)"

section \<open>Deletion, visibility, format\<close>

definition delete_repo :: "int \<Rightarrow> db \<Rightarrow> db" where
  "delete_repo now d = enqueue PurgeRepo now ''{}'' (meta_put ''deleted'' (int_dec now) d)"

definition set_public :: "bool option \<Rightarrow> db \<Rightarrow> db \<times> bool" where
  "set_public enabled d =
     (let d' = (case enabled of Some True \<Rightarrow> meta_put ''public'' ''1'' d | Some False \<Rightarrow> meta_del ''public'' d | None \<Rightarrow> d)
      in (d', meta_opt d' ''public'' \<noteq> None))"

definition set_format :: "string option \<Rightarrow> db \<Rightarrow> db \<times> (string \<times> bool) res" where
  "set_format object_format d =
     (case parse_kind object_format of
        Inl e \<Rightarrow> (d, Inl e)
      | Inr None \<Rightarrow> (d, Inl (Protocol ''object_format required''))
      | Inr (Some kind) \<Rightarrow>
          (case pin_obj_format kind d of
             (d', Inl e) \<Rightarrow> (d', Inl e)
           | (d', Inr _) \<Rightarrow> (d', Inr (kind_name (obj_kind d'), obj_format_pinned d'))))"

section \<open>Pins and protected patterns\<close>

definition valid_ref :: "ext \<Rightarrow> string \<Rightarrow> string res" where
  "valid_ref X name = (if \<not> starts_with ''refs/'' name \<or> \<not> name_ok X name then Inl (Protocol ''bad ref name'') else Inr name)"

definition pin :: "ext \<Rightarrow> int \<Rightarrow> string \<Rightarrow> string \<Rightarrow> db \<Rightarrow> db \<times> (string \<times> string) res" where
  "pin X now ref sha d =
     (case valid_ref X ref of Inl e \<Rightarrow> (d, Inl e) | Inr name \<Rightarrow>
      case oid X sha of Inl e \<Rightarrow> (d, Inl e) | Inr target \<Rightarrow>
      if is_null X target then (d, Inl (Protocol ''pin sha must be non-zero''))
      else if map_option r_target (map_of (t_refs d) name) \<noteq> Some target
           then (d, Inl (Conflict (name @ '' is not at '' @ target)))
      else if 256 \<le> tbl_count (\<lambda>n _. n \<noteq> name) (t_pins d) then (d, Inl (Limit ''too many pins (256 max)''))
      else (d\<lparr>t_pins := tbl_put name (target, case map_of (t_pins d) name of Some (_, at) \<Rightarrow> at | None \<Rightarrow> now) (t_pins d)\<rparr>,
            Inr (name, target)))"

definition unpin :: "ext \<Rightarrow> string \<Rightarrow> db \<Rightarrow> db \<times> bool res" where
  "unpin X ref d =
     (case valid_ref X ref of Inl e \<Rightarrow> (d, Inl e)
      | Inr name \<Rightarrow> (d\<lparr>t_pins := tbl_del name (t_pins d)\<rparr>, Inr (map_of (t_pins d) name \<noteq> None)))"

definition pin_sha :: "db \<Rightarrow> string \<Rightarrow> string option" where
  "pin_sha d name = map_option fst (map_of (t_pins d) name)"

definition protect :: "ext \<Rightarrow> int \<Rightarrow> string \<Rightarrow> db \<Rightarrow> db \<times> string res" where
  "protect X now pattern d =
     (let p = trim pattern
      in if 256 < length p \<or> \<not> scope_pattern_ok (name_partial_ok X) p
         then (d, Inl (Protocol (''ref must be a refs/'' @ [CHR 0xE2, CHR 0x80, CHR 0xA6] @ '' pattern (trailing * only)'')))
         else if 64 \<le> tbl_count (\<lambda>q _. q \<noteq> p) (t_protected d) then (d, Inl (Limit ''too many protected patterns (64 max)''))
         else (d\<lparr>t_protected := (if map_of (t_protected d) p = None then tbl_put p now (t_protected d) else t_protected d)\<rparr>, Inr p))"

definition unprotect :: "string \<Rightarrow> db \<Rightarrow> db \<times> bool" where
  "unprotect pattern d =
     (d\<lparr>t_protected := tbl_del (trim pattern) (t_protected d)\<rparr>, map_of (t_protected d) (trim pattern) \<noteq> None)"

definition is_protected :: "db \<Rightarrow> string \<Rightarrow> bool" where
  "is_protected d name \<longleftrightarrow> list_ex (\<lambda>(p, _). scope_allows (Some p) name) (t_protected d)"

end
