(* ===== verification/Store_Index.thy ===== *)
theory Store_Index
  imports Schema
begin

unbundle bit_operations_syntax

text \<open>
  The object index, \<open>server/src/store/mod.rs\<close>: where an object's bytes are, which rows a reader sees,
  how rows are added. Readers see the rows of live packs only; a pack being ingested is visible to
  its own push through \<open>lookup_in_pack\<close>.
\<close>

section \<open>Kinds and locations\<close>

datatype git_kind = Commit | Tree | Blob | Tag

primrec git_kind_code :: "git_kind \<Rightarrow> int" where
  "git_kind_code Commit = 1"
| "git_kind_code Tree = 2"
| "git_kind_code Blob = 3"
| "git_kind_code Tag = 4"

definition kind_of :: "int \<Rightarrow> git_kind res" where
  "kind_of k =
     (if k = 1 then Inr Commit else if k = 2 then Inr Tree else if k = 3 then Inr Blob
      else if k = 4 then Inr Tag else Inl (Internal (''bad kind '' @ int_dec k @ '' in objects'')))"

record obj_loc =
  loc_pack :: string
  loc_idx :: int
  loc_offset :: int
  loc_len :: int
  loc_kind :: git_kind
  loc_size :: int

definition loc_of :: "string \<Rightarrow> obj_row \<Rightarrow> obj_loc res" where
  "loc_of pack r =
     (case kind_of (o_kind r) of
        Inl e \<Rightarrow> Inl e
      | Inr k \<Rightarrow> Inr \<lparr>loc_pack = pack, loc_idx = o_idx r, loc_offset = o_offset r, loc_len = o_len r,
                    loc_kind = k, loc_size = o_size r\<rparr>)"

section \<open>Reading\<close>

definition pack_live :: "db \<Rightarrow> string \<Rightarrow> bool" where
  "pack_live d p \<longleftrightarrow> (case map_of (t_packs d) p of Some k \<Rightarrow> k_state k = Live | None \<Rightarrow> False)"

text \<open>The rows of one object that the reader query joins: pack by pack, live packs only.\<close>

definition live_rows :: "db \<Rightarrow> string \<Rightarrow> (string \<times> obj_row) list" where
  "live_rows d sha =
     map (\<lambda>((s, p), r). (p, r)) (filter (\<lambda>((s, p), r). s = sha \<and> pack_live d p) (t_objects d))"

definition lookup :: "ext \<Rightarrow> db \<Rightarrow> string list \<Rightarrow> obj_loc option list res" where
  "lookup X d ids =
     traverse (\<lambda>sha.
       case live_rows d sha of
         [] \<Rightarrow> Inr None
       | rows \<Rightarrow> (case group_rep X rows of (p, r) \<Rightarrow> (case loc_of p r of Inl e \<Rightarrow> Inl e | Inr l \<Rightarrow> Inr (Some l)))) ids"

definition lookup_in_pack :: "db \<Rightarrow> string \<Rightarrow> string \<Rightarrow> obj_loc option" where
  "lookup_in_pack d sha pack =
     map_option (\<lambda>r. \<lparr>loc_pack = pack, loc_idx = o_idx r, loc_offset = o_offset r, loc_len = o_len r,
                      loc_kind = (case kind_of (o_kind r) of Inr k \<Rightarrow> k | Inl _ \<Rightarrow> Blob), loc_size = o_size r\<rparr>)
       (map_of (t_objects d) (sha, pack))"

definition pack_meta :: "db \<Rightarrow> string \<Rightarrow> (nat \<times> nat) res" where
  "pack_meta d pack =
     (case map_of (t_packs d) pack of
        Some k \<Rightarrow>
          if k_state k \<noteq> Live then Inl (Storage (''pack '' @ pack @ '' not live''))
          else if k_count k < 0 \<or> int U32_MAX < k_count k then Inl (Internal ''count'')
          else if k_bytes k < 0 then Inl (Internal ''bytes'')
          else Inr (nat (k_count k), nat (k_bytes k))
      | None \<Rightarrow> Inl (Storage (''pack '' @ pack @ '' not live'')))"

text \<open>
  \<open>entries_of\<close> reads the marked rows of a pack in pages of 5000, each page starting after the last
  index of the page before; the marks are a bitmap with one bit per index.
\<close>

definition PAGE :: nat where "PAGE = 5000"

definition marked_bit :: "byte list \<Rightarrow> int \<Rightarrow> bool" where
  "marked_bit bm idx \<longleftrightarrow>
     (let k = nat (idx div 8) in k < length bm \<and> (bm ! k) AND push_bit (nat (idx mod 8)) 1 \<noteq> 0)"

definition pack_rows :: "db \<Rightarrow> string \<Rightarrow> obj_row list" where
  "pack_rows d pack = map snd (filter (\<lambda>((s, p), r). p = pack) (t_objects d))"

definition page :: "obj_row list \<Rightarrow> int \<Rightarrow> obj_row list" where
  "page rows after = take PAGE (sort_key o_idx (filter (\<lambda>r. after < o_idx r) rows))"

lemma page_nonempty_after:
  "page rows after \<noteq> [] \<Longrightarrow> after < o_idx (last (page rows after)) \<and> last (page rows after) \<in> set rows"
proof -
  have "set (page rows after) \<subseteq> {r \<in> set rows. after < o_idx r}"
    by (auto simp: page_def dest: in_set_takeD)
  then show "page rows after \<noteq> [] \<Longrightarrow> after < o_idx (last (page rows after)) \<and> last (page rows after) \<in> set rows"
    using last_in_set by blast
qed

function entries_loop :: "obj_row list \<Rightarrow> int \<Rightarrow> obj_row list" where
  "entries_loop rows after =
     (let ps = page rows after
      in if length ps < PAGE then ps else ps @ entries_loop rows (o_idx (last ps)))"
  by pat_completeness auto
termination
proof (relation "measure (\<lambda>(rows, after). length (filter (\<lambda>r. after < o_idx r) rows))", goal_cases)
  case (2 rows after ps)
  then have "page rows after \<noteq> []" by (auto simp: PAGE_def)
  note l = page_nonempty_after [OF this]
  let ?a = "o_idx (last (page rows after))"
  have "filter (\<lambda>r. ?a < o_idx r) rows = filter (\<lambda>r. ?a < o_idx r) (filter (\<lambda>r. after < o_idx r) rows)"
    using l by (auto intro: filter_cong)
  moreover have "last (page rows after) \<in> set (filter (\<lambda>r. after < o_idx r) rows)" using l by simp
  ultimately show ?case
    using 2 by (simp only: in_measure case_prod_conv) (rule length_filter_less [where x = "last (page rows after)"], auto)
qed auto

declare entries_loop.simps [simp del]

definition entries_of :: "db \<Rightarrow> string \<Rightarrow> byte list \<Rightarrow> obj_loc list res" where
  "entries_of d pack bitmap =
     (case traverse (loc_of pack) (filter (\<lambda>r. marked_bit bitmap (o_idx r)) (entries_loop (pack_rows d pack) (- 1))) of
        Inl e \<Rightarrow> Inl e
      | Inr locs \<Rightarrow> Inr (sort_key loc_offset locs))"

definition commits_in_range :: "ext \<Rightarrow> db \<Rightarrow> string \<Rightarrow> int \<Rightarrow> int \<Rightarrow> (string \<times> obj_loc) list res" where
  "commits_in_range X d pack lo hi =
     traverse (\<lambda>(sha, r).
        case from_hex X sha of
          Inl _ \<Rightarrow> Inl (Internal ''bad sha in objects'')
        | Inr h \<Rightarrow> Inr (h, \<lparr>loc_pack = pack, loc_idx = o_idx r, loc_offset = o_offset r, loc_len = o_len r,
                         loc_kind = Commit, loc_size = o_size r\<rparr>))
       (take 100000 (sort_key (\<lambda>(sha, r). o_offset r)
          (map (\<lambda>((s, p), r). (s, r))
            (filter (\<lambda>((s, p), r). p = pack \<and> o_kind r = 1 \<and> lo \<le> o_offset r \<and> o_offset r < hi \<and> pack_live d p)
              (t_objects d)))))"

section \<open>Writing\<close>

text \<open>A row as a push posts it; \<open>u64\<close> values that do not fit SQLite's integers are refused.\<close>

record obj_in =
  in_sha :: string
  in_idx :: nat
  in_offset :: nat
  in_len :: nat
  in_kind :: git_kind
  in_size :: nat
  in_parents :: "string list option"

definition to_i64 :: "nat \<Rightarrow> int res" where
  "to_i64 n = (if int n \<le> I64_MAX then Inr (int n) else Inl (Internal ''u64 to i64''))"

definition put_new :: "'k \<Rightarrow> 'v \<Rightarrow> ('k \<times> 'v) list \<Rightarrow> ('k \<times> 'v) list" where
  "put_new k v t = (case map_of t k of None \<Rightarrow> t @ [(k, v)] | Some _ \<Rightarrow> t)"

definition record_parents :: "string \<Rightarrow> string list \<Rightarrow> db \<Rightarrow> db" where
  "record_parents sha ps d =
     d\<lparr>t_commit_parents :=
         fold (\<lambda>(n, p) t. put_new (sha, int n) (Some p) t) (enumerate 0 ps)
           (put_new (sha, - 1) None (t_commit_parents d))\<rparr>"

definition insert_object :: "string \<Rightarrow> obj_in \<Rightarrow> db \<Rightarrow> db \<times> unit res" where
  "insert_object pack r d =
     (case to_i64 (in_offset r) of Inl e \<Rightarrow> (d, Inl e) | Inr off \<Rightarrow>
      case to_i64 (in_size r) of Inl e \<Rightarrow> (d, Inl e) | Inr sz \<Rightarrow>
      let d1 = d\<lparr>t_objects := put_new (in_sha r, pack)
                   \<lparr>o_idx = int (in_idx r), o_offset = off, o_len = int (in_len r), o_kind = git_kind_code (in_kind r), o_size = sz\<rparr>
                   (t_objects d)\<rparr>
      in (case (in_kind r, in_parents r) of
            (Commit, Some ps) \<Rightarrow> (record_parents (in_sha r) ps d1, Inr ())
          | _ \<Rightarrow> (d1, Inr ())))"

fun insert_rows :: "string \<Rightarrow> obj_in list \<Rightarrow> db \<Rightarrow> db \<times> unit res" where
  "insert_rows pack [] d = (d, Inr ())"
| "insert_rows pack (r # rs) d =
     (case insert_object pack r d of (d', Inl e) \<Rightarrow> (d', Inl e) | (d', Inr _) \<Rightarrow> insert_rows pack rs d')"

definition insert_objects :: "string \<Rightarrow> obj_in list \<Rightarrow> db \<Rightarrow> db \<times> unit res" where
  "insert_objects pack rows d =
     (if 10000 < length rows then (d, Inl (Protocol ''more than 10,000 rows'')) else insert_rows pack rows d)"

definition set_pack_state :: "string \<Rightarrow> pack_state \<Rightarrow> db \<Rightarrow> db" where
  "set_pack_state pack st d = d\<lparr>t_packs := tbl_update (\<lambda>p _. p = pack) (\<lambda>k. k\<lparr>k_state := st\<rparr>) (t_packs d)\<rparr>"

section \<open>Readers\<close>

lemma kind_roundtrip [simp]: "kind_of (git_kind_code k) = Inr k"
  by (cases k) (simp_all add: kind_of_def)

text \<open>An object is live when the reader query finds a row for it.\<close>

definition obj_live :: "db \<Rightarrow> string \<Rightarrow> bool" where
  "obj_live d sha \<longleftrightarrow> live_rows d sha \<noteq> []"

lemma obj_live_iff: "obj_live d sha \<longleftrightarrow> (\<exists>p r. ((sha, p), r) \<in> set (t_objects d) \<and> pack_live d p)"
  by (force simp: obj_live_def live_rows_def filter_empty_conv)

lemma lookup_one:
  "lookup X d [sha] = Inr ls \<Longrightarrow> (ls = [None] \<longleftrightarrow> \<not> obj_live d sha) \<and> length ls = 1"
  by (auto simp: lookup_def obj_live_def split: list.splits prod.splits sum.splits)

lemma lookup_found:
  assumes rep: "\<And>rows. rows \<noteq> [] \<Longrightarrow> group_rep X rows \<in> set rows" and l: "lookup X d [sha] = Inr [Some l]"
  shows "pack_live d (loc_pack l)
    \<and> (\<exists>r. ((sha, loc_pack l), r) \<in> set (t_objects d) \<and> o_offset r = loc_offset l \<and> o_len r = loc_len l)"
proof -
  from l obtain p r where g: "group_rep X (live_rows d sha) = (p, r)" "loc_of p r = Inr l" "live_rows d sha \<noteq> []"
    by (auto simp: lookup_def split: list.splits prod.splits sum.splits)
  with rep have "(p, r) \<in> set (live_rows d sha)" by metis
  then show ?thesis using g(2) by (auto simp: live_rows_def loc_of_def split: sum.splits)
qed

section \<open>Paging\<close>

lemma filter_above_nth:
  assumes "sorted_wrt (\<lambda>a b. f a < (f b :: int)) L" and "0 < n" and "n \<le> length L"
  shows "filter (\<lambda>x. f (L ! (n - 1)) < f x) L = drop n L"
  using assms
proof (induction L arbitrary: n)
  case (Cons x L)
  show ?case
  proof (cases "n = 1")
    case True
    have "filter (\<lambda>y. f x < f y) L = L" using Cons.prems by (auto simp: filter_id_conv)
    with True show ?thesis by simp
  next
    case False
    with Cons.prems have n: "0 < n - 1" "n - 1 \<le> length L" by auto
    then have "f x < f (L ! (n - 2))" using Cons.prems(1) by auto
    moreover have "filter (\<lambda>y. f (L ! (n - 1 - 1)) < f y) L = drop (n - 1) L"
      using Cons.IH [OF _ n] Cons.prems(1) by simp
    ultimately show ?thesis
      using n False by (simp add: nth_Cons' drop_Cons' numeral_2_eq_2)
  qed
qed simp

lemma sort_key_strict:
  assumes "distinct (map f xs)"
  shows "sorted_wrt (\<lambda>a b. f a < (f b :: int)) (sort_key f xs)"
proof -
  have "sorted (map f (sort_key f xs))" by simp
  moreover have "distinct (map f (sort_key f xs))"
    using assms by (metis distinct_map distinct_sort set_sort)
  ultimately show ?thesis
    by (simp add: strict_sorted_iff sorted_wrt_map [symmetric])
qed

lemma entries_loop_all:
  assumes "distinct (map o_idx rows)"
  shows "entries_loop rows after = sort_key o_idx (filter (\<lambda>r. after < o_idx r) rows)"
  using assms
proof (induction rows after rule: entries_loop.induct)
  case (1 rows after)
  let ?L = "sort_key o_idx (filter (\<lambda>r. after < o_idx r) rows)"
  have page: "page rows after = take PAGE ?L" by (simp add: page_def)
  show ?case
  proof (cases "length ?L < PAGE")
    case True
    then have "page rows after = ?L" unfolding page by simp
    with True show ?thesis by (subst entries_loop.simps) (simp only: Let_def if_True)
  next
    case False
    then have len: "PAGE \<le> length ?L" by simp
    then have full: "length (page rows after) = PAGE" unfolding page by (simp del: length_sort)
    have pos: "0 < PAGE" by (simp add: PAGE_def)
    let ?a = "o_idx (last (page rows after))"
    have ne: "page rows after \<noteq> []" using full pos by auto
    have last: "last (page rows after) = ?L ! (PAGE - 1)"
      using len pos full ne by (simp add: page last_conv_nth)
    have strict: "sorted_wrt (\<lambda>a b. o_idx a < o_idx b) ?L"
      using 1(2) by (intro sort_key_strict) (simp add: distinct_map_filter)
    have "filter (\<lambda>r. ?a < o_idx r) rows = filter (\<lambda>r. ?a < o_idx r) (filter (\<lambda>r. after < o_idx r) rows)"
      using page_nonempty_after [OF ne] by (auto intro!: filter_cong)
    then have "sort_key o_idx (filter (\<lambda>r. ?a < o_idx r) rows) = filter (\<lambda>r. ?a < o_idx r) ?L"
      by (simp only: filter_sort)
    also have "\<dots> = drop PAGE ?L" unfolding last by (rule filter_above_nth [OF strict pos len])
    finally have rest: "entries_loop rows ?a = drop PAGE ?L"
      using 1(1) [OF refl _ 1(2)] full by simp
    have "entries_loop rows after = page rows after @ entries_loop rows ?a"
      using full by (subst entries_loop.simps) (simp add: Let_def)
    then show ?thesis unfolding rest unfolding page by simp
  qed
qed

text \<open>
  C19. The paged scan behind a pack read returns every marked entry of the pack exactly once, in
  offset order: reading in pages of 5000 by index is the same as one scan of all its rows, whatever
  their number, as long as no two rows of the pack share an index.
\<close>

theorem entries_of_complete:
  assumes "distinct (map o_idx (pack_rows d pack))" and "\<forall>r \<in> set (pack_rows d pack). 0 \<le> o_idx r"
  shows "entries_of d pack bitmap =
    (case traverse (loc_of pack) (filter (\<lambda>r. marked_bit bitmap (o_idx r)) (sort_key o_idx (pack_rows d pack))) of
       Inl e \<Rightarrow> Inl e | Inr locs \<Rightarrow> Inr (sort_key loc_offset locs))"
proof -
  have "filter (\<lambda>r. - 1 < o_idx r) (pack_rows d pack) = pack_rows d pack"
    using assms(2) by (auto simp: filter_id_conv)
  then show ?thesis by (simp add: entries_of_def entries_loop_all [OF assms(1)])
qed

definition one_pack_db :: db where
  "one_pack_db = empty_db\<lparr>t_objects :=
     [((''aa'', ''p''), \<lparr>o_idx = 1, o_offset = 12, o_len = 9, o_kind = 3, o_size = 20\<rparr>),
      ((''bb'', ''p''), \<lparr>o_idx = 0, o_offset = 40, o_len = 7, o_kind = 1, o_size = 11\<rparr>),
      ((''cc'', ''q''), \<lparr>o_idx = 0, o_offset = 12, o_len = 7, o_kind = 1, o_size = 11\<rparr>)]\<rparr>"

theorem entries_of_complete_witness:
  "entries_of one_pack_db ''p'' [3] =
     Inr [\<lparr>loc_pack = ''p'', loc_idx = 1, loc_offset = 12, loc_len = 9, loc_kind = Blob, loc_size = 20\<rparr>,
          \<lparr>loc_pack = ''p'', loc_idx = 0, loc_offset = 40, loc_len = 7, loc_kind = Commit, loc_size = 11\<rparr>]"
proof -
  have "distinct (map o_idx (pack_rows one_pack_db ''p''))" "\<forall>r \<in> set (pack_rows one_pack_db ''p''). 0 \<le> o_idx r"
    by (simp_all add: pack_rows_def one_pack_db_def)
  from entries_of_complete [OF this, of "[3]"] show ?thesis
    by (simp add: pack_rows_def one_pack_db_def marked_bit_def loc_of_def kind_of_def)
qed

section \<open>Writers\<close>

definition tbl_keys :: "('k \<times> 'v) list \<Rightarrow> 'k set" where
  "tbl_keys t = fst ` set t"

lemma tbl_keys_iff: "k \<in> tbl_keys t \<longleftrightarrow> (\<exists>v. map_of t k = Some v)"
  by (metis map_of_eq_None_iff not_None_eq tbl_keys_def)

lemma put_new_old: "k \<in> tbl_keys t \<Longrightarrow> put_new k v t = t"
  by (auto simp: put_new_def tbl_keys_iff)

lemma map_of_put_new: "map_of (put_new k v t) j = (if j = k \<and> map_of t k = None then Some v else map_of t j)"
  by (auto simp: put_new_def map_add_def split: option.splits)

lemma dom_put_new [simp]: "tbl_keys (put_new k v t) = insert k (tbl_keys t)"
  using tbl_keys_iff [of k t] by (auto simp: put_new_def tbl_keys_def split: option.splits)

lemma tbl_ok_put_new: "tbl_ok t \<Longrightarrow> tbl_ok (put_new k v t)"
  by (auto simp: put_new_def tbl_ok_def map_of_eq_None_iff split: option.splits)

lemma set_put_new: "set t \<subseteq> set (put_new k v t)" "set (put_new k v t) \<subseteq> insert (k, v) (set t)"
  by (auto simp: put_new_def split: option.splits)

definition parent_keys :: "string \<Rightarrow> string list \<Rightarrow> (string \<times> int) set" where
  "parent_keys sha ps = insert (sha, - 1) ((\<lambda>n. (sha, int n)) ` {..< length ps})"

definition row_known :: "string \<Rightarrow> obj_in \<Rightarrow> db \<Rightarrow> bool" where
  "row_known pack r d \<longleftrightarrow> (in_sha r, pack) \<in> tbl_keys (t_objects d)
     \<and> (\<forall>ps. in_kind r = Commit \<and> in_parents r = Some ps \<longrightarrow> parent_keys (in_sha r) ps \<subseteq> tbl_keys (t_commit_parents d))"

lemma dom_fold_put_new:
  "tbl_keys (fold (\<lambda>(n, p) t. put_new (sha, int n) (Some p) t) nps t) =
     tbl_keys t \<union> (\<lambda>(n, p). (sha, int n)) ` set nps"
  by (induction nps arbitrary: t) (auto split: prod.splits)

lemma fold_put_new_old:
  "(\<lambda>(n, p). (sha, int n)) ` set nps \<subseteq> tbl_keys t \<Longrightarrow>
     fold (\<lambda>(n, p) t. put_new (sha, int n) (Some p) t) nps t = t"
  by (induction nps) (auto simp: put_new_old)

lemma enumerate_keys: "(\<lambda>(n, p). (sha, int n)) ` set (enumerate 0 ps) = (\<lambda>n. (sha, int n)) ` {..< length ps}"
  by (force simp: in_set_enumerate_eq image_iff)

lemma dom_record_parents [simp]:
  "tbl_keys (t_commit_parents (record_parents sha ps d)) = tbl_keys (t_commit_parents d) \<union> parent_keys sha ps"
  by (auto simp: record_parents_def dom_fold_put_new enumerate_keys parent_keys_def)

lemma record_parents_old: "parent_keys sha ps \<subseteq> tbl_keys (t_commit_parents d) \<Longrightarrow> record_parents sha ps d = d"
  unfolding record_parents_def parent_keys_def
  by (subst fold_put_new_old) (auto simp: put_new_old enumerate_keys)

text \<open>Inserting rows touches \<open>objects\<close> and \<open>commit_parents\<close> only, and only ever adds keys.\<close>

definition index_frame :: "db \<Rightarrow> db \<Rightarrow> bool" where
  "index_frame d d' \<longleftrightarrow> d'\<lparr>t_objects := t_objects d, t_commit_parents := t_commit_parents d\<rparr> = d
     \<and> set (t_objects d) \<subseteq> set (t_objects d') \<and> (tbl_ok (t_objects d) \<longrightarrow> tbl_ok (t_objects d'))
     \<and> tbl_keys (t_objects d) \<subseteq> tbl_keys (t_objects d')
     \<and> tbl_keys (t_commit_parents d) \<subseteq> tbl_keys (t_commit_parents d')"

lemma record_parents_frame [simp]:
  "t_objects (record_parents sha ps d) = t_objects d"
  "(record_parents sha ps d)\<lparr>t_objects := t, t_commit_parents := c\<rparr> = d\<lparr>t_objects := t, t_commit_parents := c\<rparr>"
  by (simp_all add: record_parents_def)

lemma index_frame_refl [simp]: "index_frame d d"
  by (simp add: index_frame_def)

lemma index_frame_trans: "index_frame d e \<Longrightarrow> index_frame e f \<Longrightarrow> index_frame d f"
  unfolding index_frame_def by (cases d; cases e; cases f) auto

lemma insert_object_frame: "index_frame d (fst (insert_object pack r d))"
  by (auto simp: insert_object_def index_frame_def Let_def tbl_ok_put_new set_put_new(1) [THEN subsetD]
      split: sum.splits git_kind.splits option.splits)

lemma insert_rows_frame: "index_frame d (fst (insert_rows pack rs d))"
proof (induction rs arbitrary: d)
  case (Cons r rs)
  obtain d' res where i: "insert_object pack r d = (d', res)" by (cases "insert_object pack r d")
  then have 1: "index_frame d d'" using insert_object_frame [of d pack r] by simp
  show ?case using i 1 Cons.IH [of d'] by (auto split: sum.splits intro: index_frame_trans)
qed simp

lemma insert_object_known: "insert_object pack r d = (d', Inr ()) \<Longrightarrow> row_known pack r d'"
  by (auto simp: insert_object_def row_known_def Let_def
      split: sum.splits git_kind.splits option.splits)

lemma row_known_mono: "row_known pack r d \<Longrightarrow> index_frame d d' \<Longrightarrow> row_known pack r d'"
  unfolding row_known_def index_frame_def by blast

lemma insert_object_again:
  assumes "row_known pack r d" and "insert_object pack r e = (e', Inr ())"
  shows "insert_object pack r d = (d, Inr ())"
proof -
  have "put_new (in_sha r, pack) v (t_objects d) = t_objects d" for v
    using assms(1) by (intro put_new_old) (simp add: row_known_def)
  then show ?thesis
    using assms by (auto simp: insert_object_def Let_def row_known_def record_parents_old
        split: sum.splits git_kind.splits option.splits)
qed

lemma insert_rows_known: "insert_rows pack rs d = (d', Inr ()) \<Longrightarrow> r \<in> set rs \<Longrightarrow> row_known pack r d'"
proof (induction rs arbitrary: d)
  case (Cons q rs)
  from Cons.prems obtain e where e: "insert_object pack q d = (e, Inr ())" "insert_rows pack rs e = (d', Inr ())"
    by (auto split: prod.splits sum.splits)
  then show ?case
    using Cons insert_object_known [OF e(1)] insert_rows_frame [of e pack rs] by (auto intro: row_known_mono)
qed simp

lemma insert_rows_again:
  "insert_rows pack rs e = (e', Inr ()) \<Longrightarrow> \<forall>r \<in> set rs. row_known pack r d \<Longrightarrow> insert_rows pack rs d = (d, Inr ())"
proof (induction rs arbitrary: e)
  case (Cons r rs)
  then obtain f where "insert_object pack r e = (f, Inr ())" "insert_rows pack rs f = (e', Inr ())"
    by (auto split: prod.splits sum.splits)
  then show ?case using Cons insert_object_again [of pack r d e f] by simp
qed simp

text \<open>
  C20. Posting index rows is safe to repeat: a batch that was accepted once is accepted again and
  changes nothing, so a push whose acknowledgement was lost can resend it.
\<close>

theorem insert_objects_retry:
  assumes "insert_objects pack rows d = (d', Inr ())"
  shows "insert_objects pack rows d' = (d', Inr ())"
  using assms insert_rows_again [of pack rows d d' d'] insert_rows_known [of pack rows d d']
  by (auto simp: insert_objects_def split: if_splits)

definition two_rows :: "obj_in list" where
  "two_rows = [\<lparr>in_sha = ''aa'', in_idx = 0, in_offset = 12, in_len = 30, in_kind = Commit, in_size = 70, in_parents = Some [''bb'']\<rparr>,
               \<lparr>in_sha = ''cc'', in_idx = 1, in_offset = 42, in_len = 9, in_kind = Blob, in_size = 3, in_parents = None\<rparr>]"

theorem insert_objects_retry_witness:
  "snd (insert_objects ''p'' two_rows empty_db) = Inr ()
   \<and> insert_objects ''p'' two_rows (fst (insert_objects ''p'' two_rows empty_db)) =
       (fst (insert_objects ''p'' two_rows empty_db), Inr ())"
proof -
  have "snd (insert_objects ''p'' two_rows empty_db) = Inr ()"
    by (simp add: insert_objects_def two_rows_def insert_object_def to_i64_def Let_def)
  moreover from this have "insert_objects ''p'' two_rows empty_db = (fst (insert_objects ''p'' two_rows empty_db), Inr ())"
    by (metis prod.collapse)
  ultimately show ?thesis using insert_objects_retry by blast
qed

end
