(* ===== verification/Repo_Push.thy ===== *)
theory Repo_Push
  imports Repo_Access Store_Index
begin

text \<open>
  A push before it commits, \<open>server/src/repo_do/mod.rs\<close>: opening the push row under a throttle and
  the open-push bound, capturing the token's scope, posting index rows into an ingesting pack,
  looking objects up, aborting, and queueing an import.

  The throttle's estimate, computed in \<open>f64\<close>, is written over the integers with the denominator
  60000 multiplied out. The JSON payload of an import job is serde's: \<open>payload\<close> writes it,
  \<open>payload_push\<close> and \<open>payload_pack\<close> read two of its fields.
\<close>

section \<open>Throttle\<close>

definition DEFAULT_PUSHES_PER_MIN :: int where "DEFAULT_PUSHES_PER_MIN = 30"

definition rate_count :: "db \<Rightarrow> string \<Rightarrow> int \<Rightarrow> int" where
  "rate_count d bucket win = (case map_of (t_rate d) (bucket, win) of Some c \<Rightarrow> c | None \<Rightarrow> 0)"

definition rate_check :: "ext \<Rightarrow> int \<Rightarrow> string \<Rightarrow> db \<Rightarrow> db \<times> unit res" where
  "rate_check X now key d =
     (let limit = env_i64 X ''GE_RATE_PUSHES_PER_MIN'' DEFAULT_PUSHES_PER_MIN
      in if limit \<le> 0 then (d, Inr ())
         else (let win = now div 60000;
                   rem = now mod 60000;
                   bucket = ''push:'' @ key;
                   d1 = d\<lparr>t_rate := tbl_put (bucket, win) (rate_count d bucket win + 1) (t_rate d)\<rparr>;
                   cur = rate_count d1 bucket win;
                   prev = rate_count d1 bucket (win - 1);
                   d2 = d1\<lparr>t_rate := tbl_delete (\<lambda>(b, w) _. b = bucket \<and> w < win - 1) (t_rate d1)\<rparr>
               in if limit * 60000 < cur * 60000 + prev * (60000 - rem)
                  then (d2, Inl (RateLimit (max (nat ((60000 - rem) div 1000)) 1)))
                  else (d2, Inr ())))"

section \<open>Opening a push\<close>

record begin_dto =
  b_push_id :: string
  b_principal :: string
  b_key :: string
  b_object_format :: "string option"
  b_admin :: bool

record begin_reply =
  br_repo_id :: string
  br_refs_version :: int
  br_gc_epoch :: int
  br_claimed :: bool

definition auth_marker :: "begin_dto \<Rightarrow> string" where
  "auth_marker b = (if b_admin b then ADMIN_AUTH else b_key b)"

definition open_pushes :: "db \<Rightarrow> nat" where
  "open_pushes d = tbl_count (\<lambda>_ p. p_state p = PushOpen) (t_pushes d)"

text \<open>The new-push arm: the open-push bound, the scope captured from the token, the row.\<close>

definition open_push :: "int \<Rightarrow> repo_meta \<Rightarrow> begin_dto \<Rightarrow> db \<Rightarrow> db \<times> unit res" where
  "open_push now m b d =
     (if 64 \<le> open_pushes d then (d, Inl (Limit ''too many open pushes''))
      else (let row = (if b_admin b \<or> b_key b = [] then None else live_token (b_key b) now d)
            in case push_scope (b_admin b) (b_key b) (map_option (\<lambda>t. (tk_level t, tk_scope t)) row) of
                 Inl e \<Rightarrow> (d, Inl e)
               | Inr scope \<Rightarrow>
                   (d\<lparr>t_pushes := tbl_put (b_push_id b)
                        \<lparr>p_state = PushOpen, p_pack_id = None, p_principal = b_principal b, p_began_at = now,
                         p_ended_at = None, p_gc_epoch = m_gc_epoch m, p_result = None, p_swept_at = None, p_scope = Some scope,
                         p_auth = Some (auth_marker b)\<rparr> (t_pushes d)\<rparr>, Inr ())))"

definition begin_arm :: "int \<Rightarrow> repo_meta \<Rightarrow> begin_dto \<Rightarrow> push_row option \<Rightarrow> db \<Rightarrow> db \<times> unit res" where
  "begin_arm now m b existing d =
     (case existing of
        Some e \<Rightarrow>
          if p_state e = PushOpen \<and> p_principal e = b_principal b \<and> p_auth e = Some (auth_marker b) then (d, Inr ())
          else if p_state e = PushOpen then (d, Inl Forbidden)
          else (d, Inl (Conflict (''push is '' @ push_state_text (p_state e))))
      | None \<Rightarrow> open_push now m b d)"

definition begin_format :: "begin_dto \<Rightarrow> db \<Rightarrow> db \<times> unit res" where
  "begin_format b d =
     (case parse_kind (b_object_format b) of
        Inl e \<Rightarrow> (d, Inl e)
      | Inr None \<Rightarrow> (d, Inr ())
      | Inr (Some kind) \<Rightarrow> pin_obj_format kind d)"

definition push_begin :: "ext \<Rightarrow> int \<Rightarrow> repo_meta \<Rightarrow> begin_dto \<Rightarrow> db \<Rightarrow> db \<times> begin_reply res" where
  "push_begin X now m b d =
     (let existing = map_of (t_pushes d) (b_push_id b)
      in case (if existing = None then admit_pack X d else Inr ()) of
           Inl e \<Rightarrow> (d, Inl e)
         | Inr _ \<Rightarrow>
             (case rate_check X now (b_key b) d of
                (d1, Inl e) \<Rightarrow> (d1, Inl e)
              | (d1, Inr _) \<Rightarrow>
                  (case begin_format b d1 of
                     (d2, Inl e) \<Rightarrow> (d2, Inl e)
                   | (d2, Inr _) \<Rightarrow>
                       (case begin_arm now m b existing d2 of
                          (d3, Inl e) \<Rightarrow> (d3, Inl e)
                        | (d3, Inr _) \<Rightarrow>
                            (d3, Inr \<lparr>br_repo_id = m_repo_id m, br_refs_version = m_refs_version m, br_gc_epoch = m_gc_epoch m,
                                      br_claimed = (0 < tbl_count (\<lambda>_ k. k_state k \<noteq> Ingesting) (t_packs d3))\<rparr>)))))"

definition push_abort :: "string option \<Rightarrow> db \<Rightarrow> db \<times> unit res" where
  "push_abort push_id d =
     (case push_id of
        None \<Rightarrow> (d, Inl (Protocol ''push_id''))
      | Some i \<Rightarrow>
          (d\<lparr>t_pushes := tbl_update (\<lambda>j p. j = i \<and> p_state p = PushOpen) (\<lambda>p. p\<lparr>p_state := PushDead\<rparr>) (t_pushes d)\<rparr>, Inr ()))"

section \<open>Index rows and lookups\<close>

definition push_lookup :: "ext \<Rightarrow> string list \<Rightarrow> string option \<Rightarrow> db \<Rightarrow> obj_loc option list res" where
  "push_lookup X ids pack d =
     (if 1000 < length ids then Inl (Internal ''lookup > 1000 ids'')
      else case traverse (oid X) ids of
             Inl e \<Rightarrow> Inl e
           | Inr hs \<Rightarrow>
               (case lookup X d hs of
                  Inl e \<Rightarrow> Inl e
                | Inr locs \<Rightarrow>
                    (case pack of
                       None \<Rightarrow> Inr locs
                     | Some p \<Rightarrow> Inr (map (\<lambda>(h, l). case l of None \<Rightarrow> lookup_in_pack d h p | Some _ \<Rightarrow> l) (zip hs locs)))))"

record pack_dto =
  pd_id :: string
  pd_push_id :: string
  pd_count :: int
  pd_bytes :: int
  pd_commit_lo :: int
  pd_commit_hi :: int

text \<open>The upsert of the packs row and the number of rows it changed.\<close>

definition upsert_pack :: "int \<Rightarrow> pack_dto \<Rightarrow> db \<Rightarrow> db \<times> nat" where
  "upsert_pack now m d =
     (case map_of (t_packs d) (pd_id m) of
        None \<Rightarrow>
          (d\<lparr>t_packs := tbl_put (pd_id m)
               \<lparr>k_state = Ingesting, k_count = pd_count m, k_bytes = pd_bytes m, k_commit_lo = pd_commit_lo m,
                k_commit_hi = pd_commit_hi m, k_push_id = Some (pd_push_id m), k_created_at = now, k_dead_at = None\<rparr>
               (t_packs d)\<rparr>, 1)
      | Some k \<Rightarrow>
          if k_state k = Ingesting \<and> k_push_id k = Some (pd_push_id m)
          then (d\<lparr>t_packs := tbl_put (pd_id m)
                    (k\<lparr>k_count := pd_count m, k_bytes := pd_bytes m, k_commit_lo := pd_commit_lo m, k_commit_hi := pd_commit_hi m\<rparr>)
                    (t_packs d)\<rparr>, 1)
          else (d, 0))"

definition push_index :: "int \<Rightarrow> pack_dto \<Rightarrow> obj_in list \<Rightarrow> db \<Rightarrow> db \<times> unit res" where
  "push_index now m rows d =
     (if 10000 < length rows then (d, Inl (Internal ''index > 10000 rows''))
      else if map_option p_state (map_of (t_pushes d) (pd_push_id m)) \<noteq> Some PushOpen
           then (d, Inl (Conflict ''push not open''))
      else case upsert_pack now m d of
             (d1, n) \<Rightarrow>
               if n \<noteq> 1 then (d1, Inl (Conflict ''pack not ingesting for this push''))
               else insert_objects (pd_id m) rows d1)"

definition storage_totals :: "string \<Rightarrow> db \<Rightarrow> int \<times> int" where
  "storage_totals push_id d =
     (let ks = filter (\<lambda>k. k_state k = Live \<or> k_state k = Ingesting \<and> k_push_id k = Some push_id) (map snd (t_packs d))
      in (sum_list (map k_count ks), sum_list (map k_bytes ks)))"

section \<open>Imports\<close>

text \<open>
  A staged part as serde sees it: its key and its byte count where present. A command carries its
  ref name where present, and whether it has the shape of a command.
\<close>

record import_dto =
  im_push :: string
  im_pack :: string
  im_parts :: "(string option \<times> nat option) list"
  im_commands :: "(string option \<times> bool) list"
  im_url :: "string option"
  im_format :: "string option"

record import_reply =
  ir_push :: string
  ir_pack :: "string option"

fun check_parts :: "string \<Rightarrow> (string option \<times> nat option) list \<Rightarrow> unit res" where
  "check_parts ns [] = Inr ()"
| "check_parts ns ((key, bytes) # ps) =
     (case key of
        None \<Rightarrow> Inl (Protocol ''part key'')
      | Some k \<Rightarrow>
          if \<not> starts_with ns k then Inl (Protocol ''part outside pending namespace'')
          else if bytes = None then Inl (Protocol ''part bytes'')
          else check_parts ns ps)"

fun check_names :: "string option \<Rightarrow> (string option \<times> bool) list \<Rightarrow> unit res" where
  "check_names scope [] = Inr ()"
| "check_names scope ((n, _) # cs) =
     (let name = (case n of Some s \<Rightarrow> s | None \<Rightarrow> [])
      in if \<not> scope_allows scope name then Inl (Protocol (''ref '' @ name @ '' outside token scope'')) else check_names scope cs)"

definition check_staged :: "string option \<Rightarrow> import_dto \<Rightarrow> string \<Rightarrow> db \<Rightarrow> unit res" where
  "check_staged scope b bad_commands d =
     (case check_names scope (im_commands b) of Inl e \<Rightarrow> Inl e | Inr _ \<Rightarrow>
      case meta_get d ''repo_id'' of Inl e \<Rightarrow> Inl e | Inr rid \<Rightarrow>
      case check_parts (''r/'' @ rid @ ''/pending/'') (im_parts b) of Inl e \<Rightarrow> Inl e | Inr _ \<Rightarrow>
      if list_all snd (im_commands b) then Inr () else Inl (Protocol (''commands: '' @ bad_commands)))"

definition import_format :: "import_dto \<Rightarrow> db \<Rightarrow> db \<times> string option res" where
  "import_format b d =
     (if im_url b \<noteq> None then (d, Inr None)
      else case parse_kind (im_format b) of
             Inl e \<Rightarrow> (d, Inl e)
           | Inr k \<Rightarrow>
               let kind = (case k of Some k' \<Rightarrow> k' | None \<Rightarrow> obj_kind d)
               in (case pin_obj_format kind d of (d', Inl e) \<Rightarrow> (d', Inl e) | (d', Inr _) \<Rightarrow> (d', Inr (Some (kind_name kind)))))"

record import_codec =
  payload :: "import_dto \<Rightarrow> string \<Rightarrow> string option \<Rightarrow> string"
  payload_push :: "string \<Rightarrow> string option"
  payload_pack :: "string \<Rightarrow> string option"
  bad_commands_text :: string

definition live_import :: "import_codec \<Rightarrow> string \<Rightarrow> db \<Rightarrow> job_row option" where
  "live_import C push d =
     map_option snd (find (\<lambda>(i, r). in_flight ''import_pack'' i r \<and> payload_push C (j_payload r) = Some push) (t_jobs d))"

definition import_start :: "ext \<Rightarrow> import_codec \<Rightarrow> int \<Rightarrow> import_dto \<Rightarrow> db \<Rightarrow> db \<times> import_reply res" where
  "import_start X C now b d =
     (case map_of (t_pushes d) (im_push b) of
        None \<Rightarrow> (d, Inl (Conflict ''unknown push''))
      | Some st \<Rightarrow>
          if p_state st \<noteq> PushOpen then (d, Inl (Conflict (''import push is '' @ push_state_text (p_state st))))
          else if im_url b = None \<and> (im_parts b = [] \<or> im_commands b = [])
               then (d, Inl (Protocol ''import needs parts and commands''))
          else (case live_import C (im_push b) d of
                  Some j \<Rightarrow>
                    (d, Inr \<lparr>ir_push = im_push b,
                             ir_pack = Some (case payload_pack C (j_payload j) of Some p \<Rightarrow> p | None \<Rightarrow> [])\<rparr>)
                | None \<Rightarrow>
                    (case admit_pack X d of Inl e \<Rightarrow> (d, Inl e) | Inr _ \<Rightarrow>
                     case import_format b d of (d1, Inl e) \<Rightarrow> (d1, Inl e) | (d1, Inr format) \<Rightarrow>
                     case (if im_url b = None then check_staged (p_scope st) b (bad_commands_text C) d1 else Inr ()) of
                       Inl e \<Rightarrow> (d1, Inl e)
                     | Inr _ \<Rightarrow>
                         let d2 = d1\<lparr>t_packs := put_new (im_pack b)
                                      \<lparr>k_state = Ingesting, k_count = 0, k_bytes = 0, k_commit_lo = 0, k_commit_hi = 0,
                                       k_push_id = Some (im_push b), k_created_at = now, k_dead_at = None\<rparr> (t_packs d1)\<rparr>
                         in (insert_job (new_job ''import_pack'' now (payload C b (p_principal st) format)
                                (if im_url b \<noteq> None then Some ''{\"phase\":\"fetch\"}'' else None)) d2,
                             Inr \<lparr>ir_push = im_push b, ir_pack = None\<rparr>))))"

end
