(* ===== verification/Repo_Commit.thy ===== *)
theory Repo_Commit
  imports Repo_Push
begin

text \<open>
  The commit of a push, \<open>server/src/repo_do/mod.rs\<close>: one synchronous span that re-validates the
  credential, checks the GC epoch and the quotas, promotes the pack, applies the ref commands with
  compare-and-swap, and records the reflog, the version, the head, the push event and the outcome.
\<close>

section \<open>Ancestry\<close>

definition FF_WALK_MAX :: nat where "FF_WALK_MAX = 200000"

definition parents_of :: "db \<Rightarrow> string \<Rightarrow> string list" where
  "parents_of d sha = concat (map (\<lambda>((s, n), p). if s = sha \<and> 0 \<le> n then (case p of Some q \<Rightarrow> [q] | None \<Rightarrow> []) else []) (t_commit_parents d))"

definition recorded :: "db \<Rightarrow> string \<Rightarrow> bool" where
  "recorded d sha \<longleftrightarrow> map_of (t_commit_parents d) (sha, - 1) \<noteq> None"

text \<open>
  The recursive query: rows leave a queue one by one into the result, at most \<open>limit\<close> of them, and a
  row's parents enter the queue unless they were queued before.
\<close>

fun anc_walk :: "db \<Rightarrow> nat \<Rightarrow> string list \<Rightarrow> string list \<Rightarrow> string list" where
  "anc_walk d limit [] seen = []"
| "anc_walk d limit (x # q) seen =
     (case limit of
        0 \<Rightarrow> []
      | Suc n \<Rightarrow>
          let new = remdups (filter (\<lambda>p. p \<notin> set seen) (parents_of d x))
          in x # anc_walk d n (q @ new) (new @ seen))"

definition ff_ancestor :: "db \<Rightarrow> string \<Rightarrow> string \<Rightarrow> bool option" where
  "ff_ancestor d old new =
     (let anc = anc_walk d FF_WALK_MAX [new] [new]
      in if old \<in> set anc then Some True
         else if list_ex (\<lambda>a. \<not> recorded d a) anc \<or> FF_WALK_MAX \<le> length anc then None
         else Some False)"

section \<open>One ref command\<close>

definition MAX_REFS :: nat where "MAX_REFS = 65536"

record cmd =
  c_old :: string
  c_new :: string
  c_name :: string
  c_peeled :: "string option"

definition ref_cas_ok :: "db \<Rightarrow> string \<Rightarrow> bool \<Rightarrow> string \<Rightarrow> bool" where
  "ref_cas_ok d name old_null old =
     (case map_of (t_refs d) name of
        None \<Rightarrow> old_null
      | Some r \<Rightarrow> \<not> old_null \<and> r_target r = old)"

text \<open>The barrier's landing feed: targets not yet walked join the frontier at generation 1.\<close>

definition feed_one :: "string \<Rightarrow> db \<Rightarrow> db" where
  "feed_one sha d =
     (if sha \<in> set (t_gc_seen d) then d
      else d\<lparr>t_gc_frontier := tbl_put sha (case map_of (t_gc_frontier d) sha of None \<Rightarrow> 1 | Some g \<Rightarrow> min g 1) (t_gc_frontier d)\<rparr>)"

definition barrier_feed_landing :: "string list \<Rightarrow> db \<Rightarrow> db" where
  "barrier_feed_landing feeds d = fold feed_one feeds d"

definition landing_feeds :: "cmd \<Rightarrow> string list" where
  "landing_feeds c = c_new c # (case c_peeled c of Some p \<Rightarrow> if list_ex (\<lambda>b. b \<noteq> CHR ''0'') p then [p] else [] | None \<Rightarrow> [])"

text \<open>Under a barrier, the feed and the version bump come before the ref write.\<close>

definition barrier_landing :: "ext \<Rightarrow> bool \<Rightarrow> cmd \<Rightarrow> db \<Rightarrow> db" where
  "barrier_landing X barrier c d =
     (if barrier
      then meta_bump ''refs_version'' (if is_null X (c_new c) then d else barrier_feed_landing (landing_feeds c) d)
      else d)"

definition barrier_active :: "db \<Rightarrow> bool" where
  "barrier_active d \<longleftrightarrow> meta_opt d ''gc.chain'' \<noteq> None \<and> meta_opt d ''gc.started_at'' \<noteq> None
     \<and> meta_opt d ''gc.barrier'' = Some ''1'' \<and> meta_opt d ''gc.mode'' \<noteq> Some ''compact''"

definition barrier_write_pending :: "string \<Rightarrow> db \<Rightarrow> db" where
  "barrier_write_pending pack d = meta_bump ''refs_version'' (d\<lparr>t_gc_pending := put_new pack (- 1) (t_gc_pending d)\<rparr>)"

text \<open>The checks every command passes before its compare-and-swap: \<open>Some why\<close> refuses it.\<close>

definition refuse :: "ext \<Rightarrow> string \<Rightarrow> cmd \<Rightarrow> string option list \<Rightarrow> db \<Rightarrow> string option res" where
  "refuse X head c scopes d =
     (if \<not> starts_with ''refs/'' (c_name c) \<or> \<not> name_ok X (c_name c) then Inr (Some ''funny refname'')
      else if \<not> list_all (\<lambda>s. scope_allows s (c_name c)) scopes then Inr (Some ''ref outside token scope'')
      else if is_null X (c_old c) \<and> is_null X (c_new c) then Inr (Some ''funny refname'')
      else if pin_sha d (c_name c) \<noteq> None then Inr (Some ''ref is pinned'')
      else if is_null X (c_new c) \<and> c_name c = head then Inr (Some ''deletion of the current branch prohibited'')
      else (let verdict = (if is_protected d (c_name c)
                           then protected_verdict (is_null X (c_old c)) (is_null X (c_new c))
                                  (if is_null X (c_old c) \<or> is_null X (c_new c) then None else ff_ancestor d (c_old c) (c_new c))
                           else None)
            in case verdict of
                 Some why \<Rightarrow> Inr (Some why)
               | None \<Rightarrow>
                   if is_null X (c_new c) then Inr None
                   else (case lookup X d [c_new c] of
                           Inl e \<Rightarrow> Inl e
                         | Inr ls \<Rightarrow>
                             if hd ls = None then Inr (Some ''missing necessary objects'')
                             else if is_null X (c_old c) \<and> MAX_REFS \<le> length (t_refs d) then Inr (Some ''too many refs'')
                             else Inr None)))"

text \<open>The three write statements and the number of rows they change.\<close>

definition write_ref :: "ext \<Rightarrow> cmd \<Rightarrow> int \<Rightarrow> db \<Rightarrow> db \<times> nat" where
  "write_ref X c now d =
     (let name = c_name c; cur = map_of (t_refs d) name
      in if is_null X (c_old c)
         then (case cur of
                 None \<Rightarrow> (d\<lparr>t_refs := tbl_put name \<lparr>r_target = c_new c, r_peeled = c_peeled c, r_updated_at = now\<rparr> (t_refs d)\<rparr>, 1)
               | Some _ \<Rightarrow> (d, 0))
         else (case cur of
                 None \<Rightarrow> (d, 0)
               | Some r \<Rightarrow>
                   if r_target r \<noteq> c_old c then (d, 0)
                   else if is_null X (c_new c) then (d\<lparr>t_refs := tbl_del name (t_refs d)\<rparr>, 1)
                   else (d\<lparr>t_refs := tbl_put name \<lparr>r_target = c_new c, r_peeled = c_peeled c, r_updated_at = now\<rparr> (t_refs d)\<rparr>, 1)))"

definition log_ref :: "cmd \<Rightarrow> string \<Rightarrow> string \<Rightarrow> int \<Rightarrow> db \<Rightarrow> db" where
  "log_ref c push who now d =
     d\<lparr>t_reflog := t_reflog d @ [\<lparr>l_name = c_name c, l_old = c_old c, l_new = c_new c, l_push_id = push, l_principal = who, l_at = now\<rparr>]\<rparr>"

definition apply_one :: "ext \<Rightarrow> string \<Rightarrow> cmd \<Rightarrow> string \<Rightarrow> string \<Rightarrow> int \<Rightarrow> bool \<Rightarrow> bool \<Rightarrow> string option list \<Rightarrow> db \<Rightarrow> db \<times> string option res" where
  "apply_one X head c push who now wr barrier scopes d =
     (case refuse X head c scopes d of
        Inl e \<Rightarrow> (d, Inl e)
      | Inr (Some why) \<Rightarrow> (d, Inr (Some why))
      | Inr None \<Rightarrow>
          (let cas = ref_cas_ok d (c_name c) (is_null X (c_old c)) (c_old c)
           in if \<not> wr then (d, Inr (if cas then None else Some ''failed to update ref''))
              else if barrier \<and> \<not> cas then (d, Inr (Some ''failed to update ref''))
              else (case write_ref X c now (barrier_landing X barrier c d) of
                      (d2, n) \<Rightarrow>
                        if n \<noteq> 1
                        then (d2, if barrier then Inl (Internal ''ref write after landing pre-check'')
                                  else Inr (Some ''failed to update ref''))
                        else (log_ref c push who now d2, Inr None))))"

section \<open>The commit span\<close>

record commit_req =
  q_push_id :: string
  q_pack_id :: "string option"
  q_principal :: string
  q_commands :: "cmd list"
  q_atomic :: bool

definition DEFAULT_MAX_OBJECTS :: int where "DEFAULT_MAX_OBJECTS = 2000000"
definition DEFAULT_MAX_BYTES :: int where "DEFAULT_MAX_BYTES = 4 * 2 ^ 30"
definition MAX_PENDING :: int where "MAX_PENDING = 10000"

definition finish_push :: "commit_req \<Rightarrow> push_state \<Rightarrow> int \<Rightarrow> (string \<times> string option) list \<Rightarrow> db \<Rightarrow> db" where
  "finish_push q st now results d =
     d\<lparr>t_pushes := tbl_update (\<lambda>i _. i = q_push_id q)
          (\<lambda>p. p\<lparr>p_state := st, p_ended_at := Some now, p_pack_id := q_pack_id q, p_result := Some results\<rparr>) (t_pushes d)\<rparr>"

definition parse_cmd :: "ext \<Rightarrow> cmd \<Rightarrow> cmd res" where
  "parse_cmd X c =
     (case oid X (c_old c) of Inl e \<Rightarrow> Inl e | Inr old \<Rightarrow>
      case oid X (c_new c) of Inl e \<Rightarrow> Inl e | Inr new \<Rightarrow> Inr (c\<lparr>c_old := old, c_new := new\<rparr>))"

text \<open>The loop over commands: results in order, the first error ends it.\<close>

fun apply_all :: "(cmd \<Rightarrow> db \<Rightarrow> db \<times> string option res) \<Rightarrow> cmd list \<Rightarrow> db \<Rightarrow> db \<times> (string \<times> string option) list res" where
  "apply_all f [] d = (d, Inr [])"
| "apply_all f (c # cs) d =
     (case f c d of
        (d1, Inl e) \<Rightarrow> (d1, Inl e)
      | (d1, Inr r) \<Rightarrow>
          (case apply_all f cs d1 of
             (d2, Inl e) \<Rightarrow> (d2, Inl e)
           | (d2, Inr rs) \<Rightarrow> (d2, Inr ((c_name c, r) # rs))))"

definition credential_row :: "int \<Rightarrow> push_row \<Rightarrow> db \<Rightarrow> (string \<times> string option) option" where
  "credential_row now p d =
     (case p_auth p of
        Some a \<Rightarrow> if a \<noteq> ADMIN_AUTH \<and> a \<noteq> [] then map_option (\<lambda>t. (tk_level t, tk_scope t)) (live_token a now d) else None
      | None \<Rightarrow> None)"

definition over_quota :: "ext \<Rightarrow> string \<Rightarrow> db \<Rightarrow> string option" where
  "over_quota X push_id d =
     (let (objects, bytes) = storage_totals push_id d;
          max_obj = env_i64 X ''GE_QUOTA_MAX_OBJECTS'' DEFAULT_MAX_OBJECTS;
          max_bytes = env_i64 X ''GE_QUOTA_MAX_BYTES'' DEFAULT_MAX_BYTES
      in if 0 < max_obj \<and> max_obj < objects
         then Some (''objects '' @ int_dec objects @ '' > GE_QUOTA_MAX_OBJECTS='' @ int_dec max_obj)
         else if 0 < max_bytes \<and> max_bytes < bytes
         then Some (''bytes '' @ int_dec bytes @ '' > GE_QUOTA_MAX_BYTES='' @ int_dec max_bytes)
         else None)"

definition promotable :: "string \<Rightarrow> string \<Rightarrow> pack_row \<Rightarrow> bool" where
  "promotable pack push k \<longleftrightarrow> k_state k = Ingesting \<and> k_push_id k = Some push"

text \<open>Step 3: the write-ahead of the barrier, then the promotion bound to this push.\<close>

definition promote :: "ext \<Rightarrow> (string \<Rightarrow> (string \<times> int) list option) \<Rightarrow> int \<Rightarrow> bool \<Rightarrow> string \<Rightarrow> string \<Rightarrow> db \<Rightarrow> db \<times> unit res" where
  "promote X strikes now barrier pack push d =
     (let d1 = (if barrier then barrier_write_pending pack d else d);
          P = (\<lambda>i k. i = pack \<and> promotable pack push k);
          d2 = d1\<lparr>t_packs := tbl_update P (\<lambda>k. k\<lparr>k_state := Live\<rparr>) (t_packs d1)\<rparr>
      in if tbl_count P (t_packs d1) \<noteq> 1 then (d2, Inl (Conflict ''pack not in state ingesting''))
         else (trigger X strikes now d2, Inr ()))"

definition demote :: "bool \<Rightarrow> string \<Rightarrow> string \<Rightarrow> db \<Rightarrow> db" where
  "demote barrier pack push d =
     (let d1 = d\<lparr>t_packs := tbl_update (\<lambda>i k. i = pack \<and> k_push_id k = Some push) (\<lambda>k. k\<lparr>k_state := Ingesting\<rparr>) (t_packs d)\<rparr>
      in if barrier then d1\<lparr>t_gc_pending := tbl_del pack (t_gc_pending d1)\<rparr> else d1)"

definition branches :: "db \<Rightarrow> string list" where
  "branches d = filter (like_prefix ''refs/heads/'') (map fst (t_refs d))"

text \<open>A head that names no ref is replaced by the first branch, if there is one.\<close>

definition adopt_head :: "db \<Rightarrow> db" where
  "adopt_head d =
     (case meta_opt d ''head'' of
        None \<Rightarrow> d
      | Some h \<Rightarrow>
          if map_of (t_refs d) h \<noteq> None then d
          else (case min_by (\<lambda>n. n) (branches d) of None \<Rightarrow> d | Some b \<Rightarrow> meta_put ''head'' b d))"

definition events_on :: "ext \<Rightarrow> bool" where
  "events_on X \<longleftrightarrow> (case env_var X ''GE_PUSH_WEBHOOK_URL'' of Some u \<Rightarrow> u \<noteq> [] | None \<Rightarrow> False)
     \<and> (case env_var X ''GE_PUSH_WEBHOOK_SECRET'' of Some s \<Rightarrow> 32 \<le> length s | None \<Rightarrow> False)"

definition moved :: "cmd list \<Rightarrow> (string \<times> string option) list \<Rightarrow> (string \<times> string \<times> string) list" where
  "moved cmds results =
     map (\<lambda>(c, _). (c_name c, c_old c, c_new c)) (filter (\<lambda>(_, (_, r)). r = None) (zip cmds results))"

definition record_push_event :: "ext \<Rightarrow> commit_req \<Rightarrow> cmd list \<Rightarrow> (string \<times> string option) list \<Rightarrow> int \<Rightarrow> db \<Rightarrow> db \<times> unit res" where
  "record_push_event X q cmds results now d =
     (if \<not> events_on X then (d, Inr ())
      else if MAX_PENDING \<le> int (length (t_push_events d)) then
        (meta_put ''push_events_dropped''
           (case meta_opt d ''push_events_dropped'' of None \<Rightarrow> ''1'' | Some v \<Rightarrow> int_dec (sql_int v + 1)) d, Inr ())
      else case meta_get d ''owner'' of Inl e \<Rightarrow> (d, Inl e) | Inr owner \<Rightarrow>
           case meta_get d ''repo'' of Inl e \<Rightarrow> (d, Inl e) | Inr repo \<Rightarrow>
           case meta_get d ''repo_id'' of Inl e \<Rightarrow> (d, Inl e) | Inr rid \<Rightarrow>
           let row = \<lparr>e_push_id = q_push_id q, e_at = now, e_owner = owner, e_repo = repo, e_repo_id = rid,
                      e_principal = q_principal q, e_refs = moved cmds results, e_attempts = 0, e_last_error = None\<rparr>
           in (enqueue PushEvent now ''{}''
                 (d\<lparr>t_push_events := t_push_events d @ [(events_seq d + 1, row)], events_seq := events_seq d + 1\<rparr>), Inr ()))"

text \<open>Steps 5 to 7, once every command has been applied.\<close>

definition settle :: "ext \<Rightarrow> commit_req \<Rightarrow> cmd list \<Rightarrow> (string \<times> string option) list \<Rightarrow> int \<Rightarrow> db \<Rightarrow> db \<times> (string \<times> string option) list res" where
  "settle X q cmds results now d =
     (let any_ok = list_ex (\<lambda>(_, r). r = None) results;
          d1 = (if any_ok \<or> q_pack_id q \<noteq> None then meta_bump ''refs_version'' d else d)
      in if \<not> any_ok then (finish_push q PushCommitted now results d1, Inr results)
         else (let d2 = enqueue GcMark (now + env_i64 X ''GE_GC_QUIET_MS'' 600000) ''{}'' (adopt_head d1)
               in case record_push_event X q cmds results now d2 of
                    (d3, Inl e) \<Rightarrow> (d3, Inl e)
                  | (d3, Inr _) \<Rightarrow> (finish_push q PushCommitted now results d3, Inr results)))"

text \<open>Steps 4 to 7: the dry run of an atomic push, then the commands themselves.\<close>

definition apply_cmds :: "ext \<Rightarrow> commit_req \<Rightarrow> cmd list \<Rightarrow> int \<Rightarrow> bool \<Rightarrow> string option list \<Rightarrow> db \<Rightarrow> db \<times> (string \<times> string option) list res" where
  "apply_cmds X q cmds now barrier scopes d =
     (case meta_get d ''head'' of
        Inl e \<Rightarrow> (d, Inl e)
      | Inr head \<Rightarrow>
          (let run = (\<lambda>wr. apply_all (\<lambda>c. apply_one X head c (q_push_id q) (q_principal q) now wr barrier scopes) cmds);
               commit = (case run True d of
                           (d', Inl e) \<Rightarrow> (d', Inl e)
                         | (d', Inr results) \<Rightarrow> settle X q cmds results now d')
           in if \<not> q_atomic q then commit
              else (case run False d of
                      (d', Inl e) \<Rightarrow> (d', Inl e)
                    | (d', Inr dry) \<Rightarrow>
                        if list_ex (\<lambda>(_, r). r \<noteq> None) dry
                        then (let d1 = (case q_pack_id q of None \<Rightarrow> d' | Some p \<Rightarrow> demote barrier p (q_push_id q) d');
                                  results = map (\<lambda>(n, r). (n, case r of None \<Rightarrow> Some ''atomic push failed'' | Some w \<Rightarrow> Some w)) dry
                              in (finish_push q PushRejected now results d1, Inr results))
                        else commit)))"

definition commit_push :: "ext \<Rightarrow> (string \<Rightarrow> (string \<times> int) list option) \<Rightarrow> int \<Rightarrow> commit_req \<Rightarrow> db \<Rightarrow> db \<times> (string \<times> string option) list res" where
  "commit_push X strikes now q d =
     (case traverse (parse_cmd X) (q_commands q) of Inl e \<Rightarrow> (d, Inl e) | Inr cmds \<Rightarrow>
      case map_of (t_pushes d) (q_push_id q) of None \<Rightarrow> (d, Inl (Conflict ''unknown push'')) | Some p \<Rightarrow>
      if p_state p \<noteq> PushOpen then (d, Inl (Conflict (''push is '' @ push_state_text (p_state p))))
      else let reject = (\<lambda>why. let results = map (\<lambda>c. (c_name c, Some why)) cmds
                               in (finish_push q PushRejected now results d, Inr results))
      in case commit_auth (p_auth p) (credential_row now p d) of
           Inl why \<Rightarrow> reject why
         | Inr current \<Rightarrow>
             let scopes = [p_scope p, case current of Some s \<Rightarrow> Some s | None \<Rightarrow> p_scope p]
             in (case meta_i64 d ''gc_epoch'' of Inl e \<Rightarrow> (d, Inl e) | Inr epoch \<Rightarrow>
                 if epoch \<noteq> p_gc_epoch p then reject ''gc ran during push, retry''
                 else (let barrier = barrier_active d
                       in case q_pack_id q of
                            None \<Rightarrow> apply_cmds X q cmds now barrier scopes d
                          | Some pack \<Rightarrow>
                              (case over_quota X (q_push_id q) d of
                                 Some m \<Rightarrow> (fst (reject ''over repo quota''), Inl (Limit (''repo quota exceeded: '' @ m)))
                               | None \<Rightarrow>
                                   (case promote X strikes now barrier pack (q_push_id q) d of
                                      (d1, Inl e) \<Rightarrow> (d1, Inl e)
                                    | (d1, Inr _) \<Rightarrow> apply_cmds X q cmds now barrier scopes d1)))))"

section \<open>Ancestry is exact\<close>

definition parent_rel :: "db \<Rightarrow> (string \<times> string) set" where
  "parent_rel d = {(a, b). b \<in> set (parents_of d a)}"

lemma anc_walk_sound:
  "x \<in> set (anc_walk d n q seen) \<Longrightarrow> \<exists>y \<in> set q. (y, x) \<in> (parent_rel d)\<^sup>*"
proof (induction d n q seen arbitrary: x rule: anc_walk.induct)
  case (2 d limit y q seen)
  show ?case
  proof (cases limit)
    case 0
    with 2 show ?thesis by simp
  next
    case (Suc n)
    let ?new = "remdups (filter (\<lambda>p. p \<notin> set seen) (parents_of d y))"
    from 2 Suc consider "x = y" | "x \<in> set (anc_walk d n (q @ ?new) (?new @ seen))" by (auto simp: Let_def)
    then show ?thesis
    proof cases
      case 2
      with "2.IH" [OF Suc refl, of x] obtain z where z: "z \<in> set q \<or> z \<in> set ?new" "(z, x) \<in> (parent_rel d)\<^sup>*" by auto
      from z(1) show ?thesis
      proof
        assume "z \<in> set ?new"
        then have "(y, z) \<in> parent_rel d" by (simp add: parent_rel_def)
        from this z(2) have "(y, x) \<in> (parent_rel d)\<^sup>*" by (rule converse_rtrancl_into_rtrancl)
        then show ?thesis by auto
      qed (use z(2) in auto)
    qed auto
  qed
qed simp

lemma anc_walk_closed:
  "length (anc_walk d n q seen) < n \<Longrightarrow>
     set q \<subseteq> set (anc_walk d n q seen)
     \<and> (\<forall>x \<in> set (anc_walk d n q seen). set (parents_of d x) \<subseteq> set seen \<union> set (anc_walk d n q seen))"
proof (induction d n q seen rule: anc_walk.induct)
  case (2 d limit y q seen)
  then obtain n where n: "limit = Suc n" by (cases limit) auto
  let ?new = "remdups (filter (\<lambda>p. p \<notin> set seen) (parents_of d y))"
  let ?out = "anc_walk d n (q @ ?new) (?new @ seen)"
  have eq: "anc_walk d limit (y # q) seen = y # ?out" by (simp add: n Let_def)
  from 2(2) have "length ?out < n" unfolding eq by (simp add: n)
  from 2(1) [OF n refl this] have sub: "set (q @ ?new) \<subseteq> set ?out"
    and par: "\<forall>x \<in> set ?out. set (parents_of d x) \<subseteq> set (?new @ seen) \<union> set ?out" by auto
  from par sub have "\<forall>x \<in> set ?out. set (parents_of d x) \<subseteq> set seen \<union> set ?out" by fastforce
  moreover have "set (parents_of d y) \<subseteq> set seen \<union> set ?out" using sub by auto
  ultimately show ?case unfolding eq using sub by auto
qed simp

declare anc_walk.simps(2) [simp del]

lemma ff_ancestor_yes: "ff_ancestor d old new = Some True \<Longrightarrow> (new, old) \<in> (parent_rel d)\<^sup>*"
  using anc_walk_sound [of old d FF_WALK_MAX "[new]" "[new]"]
  by (auto simp: ff_ancestor_def Let_def split: if_splits)

text \<open>
  C11. The fast-forward check is exact where it decides: a positive answer means the old commit is
  reached from the new one along recorded parents, a negative one that it is not and that every
  commit reached from the new one was recorded. In every other case it does not decide.
\<close>

theorem ff_ancestor_exact:
  "case ff_ancestor d old new of
     Some True \<Rightarrow> (new, old) \<in> (parent_rel d)\<^sup>*
   | Some False \<Rightarrow> (new, old) \<notin> (parent_rel d)\<^sup>* \<and> {x. (new, x) \<in> (parent_rel d)\<^sup>*} \<subseteq> {x. recorded d x}
   | None \<Rightarrow> True"
proof -
  let ?anc = "anc_walk d FF_WALK_MAX [new] [new]"
  have sound: "(new, x) \<in> (parent_rel d)\<^sup>*" if "x \<in> set ?anc" for x
    using anc_walk_sound [OF that] by simp
  have complete: "x \<in> set ?anc" if short: "length ?anc < FF_WALK_MAX" and reach: "(new, x) \<in> (parent_rel d)\<^sup>*" for x
    using reach
  proof (induction rule: rtrancl_induct)
    case base
    then show ?case using anc_walk_closed [OF short] by simp
  next
    case (step y z)
    then have "z \<in> {new} \<union> set ?anc" using anc_walk_closed [OF short] by (auto simp: parent_rel_def)
    then show ?case using anc_walk_closed [OF short] by auto
  qed
  show ?thesis
  proof (cases "ff_ancestor d old new")
    case (Some b)
    then show ?thesis
      using sound complete by (cases b) (auto simp: ff_ancestor_def Let_def list_ex_iff split: if_splits)
  qed simp
qed

end
