(* ===== verification/Commit_Safety.thy ===== *)
theory Commit_Safety
  imports Repo_Commit
begin

text \<open>
  What a commit may do to the refs. The refs are viewed as a map from names to targets; the reflog
  rows a commit appends are a journal of that map: replayed from the state before they give the
  state after, each row's old value is the value at its turn, and each row passed every check.
\<close>

section \<open>The refs as a map, the reflog as its journal\<close>

definition ref_map :: "db \<Rightarrow> string \<Rightarrow> string option" where
  "ref_map d name = map_option r_target (map_of (t_refs d) name)"

definition play :: "ext \<Rightarrow> reflog_row \<Rightarrow> (string \<Rightarrow> string option) \<Rightarrow> string \<Rightarrow> string option" where
  "play X e m = m(l_name e := (if is_null X (l_new e) then None else Some (l_new e)))"

definition replay :: "ext \<Rightarrow> reflog_row list \<Rightarrow> (string \<Rightarrow> string option) \<Rightarrow> string \<Rightarrow> string option" where
  "replay X es m = fold (play X) es m"

definition expects :: "ext \<Rightarrow> reflog_row \<Rightarrow> (string \<Rightarrow> string option) \<Rightarrow> bool" where
  "expects X e m \<longleftrightarrow> m (l_name e) = (if is_null X (l_old e) then None else Some (l_old e))"

fun journal :: "ext \<Rightarrow> reflog_row list \<Rightarrow> (string \<Rightarrow> string option) \<Rightarrow> bool" where
  "journal X [] m \<longleftrightarrow> True"
| "journal X (e # es) m \<longleftrightarrow> expects X e m \<and> journal X es (play X e m)"

lemma replay_simps [simp]:
  "replay X [] m = m" "replay X (e # es) m = replay X es (play X e m)"
  by (simp_all add: replay_def)

lemma replay_append: "replay X (es @ fs) m = replay X fs (replay X es m)"
  by (simp add: replay_def)

lemma journal_append: "journal X (es @ fs) m \<longleftrightarrow> journal X es m \<and> journal X fs (replay X es m)"
  by (induction es arbitrary: m) auto

lemma replay_other: "\<forall>e \<in> set es. l_name e \<noteq> n \<Longrightarrow> replay X es m n = m n"
  by (induction es arbitrary: m) (auto simp: play_def)

section \<open>What a command may not touch\<close>

text \<open>Everything the checks read, and the meta rows other than the version.\<close>

definition steady :: "db \<Rightarrow> db \<Rightarrow> bool" where
  "steady d d' \<longleftrightarrow> t_pins d' = t_pins d \<and> t_protected d' = t_protected d \<and> t_commit_parents d' = t_commit_parents d
     \<and> t_objects d' = t_objects d \<and> t_packs d' = t_packs d \<and> t_tokens d' = t_tokens d \<and> t_pushes d' = t_pushes d
     \<and> t_jobs d' = t_jobs d \<and> jobs_seq d' = jobs_seq d \<and> t_push_events d' = t_push_events d \<and> events_seq d' = events_seq d
     \<and> t_gc_pending d' = t_gc_pending d \<and> t_gc_seen d' = t_gc_seen d \<and> t_rate d' = t_rate d
     \<and> (\<forall>k. k \<noteq> ''refs_version'' \<longrightarrow> meta_opt d' k = meta_opt d k)"

lemma steady_refl [simp]: "steady d d"
  by (simp add: steady_def)

lemma steady_trans: "steady d e \<Longrightarrow> steady e f \<Longrightarrow> steady d f"
  by (simp add: steady_def)

lemma steady_bump: "steady d (meta_bump ''refs_version'' d)"
  by (auto simp: steady_def meta_bump_def meta_put_def meta_opt_def split: option.splits)

lemma feed_one_frame: "steady d (feed_one s d) \<and> t_refs (feed_one s d) = t_refs d \<and> t_reflog (feed_one s d) = t_reflog d
    \<and> meta_opt (feed_one s d) k = meta_opt d k"
  by (simp add: feed_one_def steady_def meta_opt_def)

lemma feed_landing_frame:
  "steady d (barrier_feed_landing fs d) \<and> t_refs (barrier_feed_landing fs d) = t_refs d
     \<and> t_reflog (barrier_feed_landing fs d) = t_reflog d \<and> meta_opt (barrier_feed_landing fs d) k = meta_opt d k"
proof (induction fs arbitrary: d)
  case (Cons f fs)
  show ?case
    using Cons.IH [of "feed_one f d"] feed_one_frame [of d f k]
    by (auto simp: barrier_feed_landing_def intro: steady_trans)
qed (simp add: barrier_feed_landing_def)

lemma ref_cas_ok_map:
  "ref_cas_ok d name null old \<longleftrightarrow> ref_map d name = (if null then None else Some old)"
  by (auto simp: ref_cas_ok_def ref_map_def split: option.splits)

lemma write_ref_cas:
  "snd (write_ref X c now d) = 1 \<longleftrightarrow> ref_cas_ok d (c_name c) (is_null X (c_old c)) (c_old c)"
  by (auto simp: write_ref_def ref_cas_ok_def Let_def split: option.splits)

lemma write_ref_no: "snd (write_ref X c now d) \<noteq> 1 \<Longrightarrow> fst (write_ref X c now d) = d"
  by (auto simp: write_ref_def Let_def split: option.splits if_splits)

lemma write_ref_yes:
  assumes "snd (write_ref X c now d) = 1" and "\<not> (is_null X (c_old c) \<and> is_null X (c_new c))"
  shows "ref_map (fst (write_ref X c now d)) =
      (ref_map d)(c_name c := (if is_null X (c_new c) then None else Some (c_new c)))"
  using assms by (auto simp: write_ref_def Let_def ref_map_def fun_eq_iff split: option.splits if_splits)

lemma write_ref_frame:
  "steady d (fst (write_ref X c now d)) \<and> t_reflog (fst (write_ref X c now d)) = t_reflog d
    \<and> meta_opt (fst (write_ref X c now d)) k = meta_opt d k"
  by (auto simp: write_ref_def Let_def steady_def meta_opt_def split: option.splits)

lemma ref_map_cong: "t_refs d' = t_refs d \<Longrightarrow> ref_map d' = ref_map d"
  by (simp add: ref_map_def fun_eq_iff)

lemma log_ref_frame [simp]:
  "steady d (log_ref c push who now d)" "ref_map (log_ref c push who now d) = ref_map d"
  "meta_opt (log_ref c push who now d) k = meta_opt d k" "t_refs (log_ref c push who now d) = t_refs d"
  by (simp_all add: log_ref_def steady_def meta_opt_def ref_map_def fun_eq_iff)

section \<open>One command\<close>

definition entry_of :: "cmd \<Rightarrow> string \<Rightarrow> string \<Rightarrow> int \<Rightarrow> reflog_row" where
  "entry_of c push who now =
     \<lparr>l_name = c_name c, l_old = c_old c, l_new = c_new c, l_push_id = push, l_principal = who, l_at = now\<rparr>"

lemma apply_one_refused: "apply_one X head c push who now wr barrier scopes d = (d', Inr (Some why)) \<Longrightarrow> d' = d"
  using write_ref_no [of X c now d]
  by (auto simp: apply_one_def barrier_landing_def Let_def split: sum.splits option.splits if_splits prod.splits)

lemma apply_one_dry: "fst (apply_one X head c push who now False barrier scopes d) = d"
  by (auto simp: apply_one_def Let_def split: sum.splits option.splits)

lemma cas_steady: "t_refs d1 = t_refs d \<Longrightarrow> ref_cas_ok d1 n b old = ref_cas_ok d n b old"
  by (simp add: ref_cas_ok_def)

text \<open>The database the ref write runs on: as before but for the barrier's feed and version.\<close>

lemma barrier_pre:
  "steady d (barrier_landing X b c d) \<and> t_refs (barrier_landing X b c d) = t_refs d
     \<and> t_reflog (barrier_landing X b c d) = t_reflog d"
  using feed_landing_frame [of d "landing_feeds c"]
  by (auto simp: barrier_landing_def steady_bump intro: steady_trans [OF _ steady_bump])

lemma barrier_landing_off [simp]: "barrier_landing X False c d = d"
  by (simp add: barrier_landing_def)

lemma apply_one_error:
  assumes "apply_one X head c push who now wr barrier scopes d = (d', Inl e)"
  shows "refuse X head c scopes d = Inl e \<and> d' = d"
proof (cases "refuse X head c scopes d")
  case (Inl e')
  then show ?thesis using assms by (simp add: apply_one_def)
next
  case (Inr r)
  let ?d1 = "barrier_landing X barrier c d"
  from Inr assms have "ref_cas_ok d (c_name c) (is_null X (c_old c)) (c_old c) \<and> snd (write_ref X c now ?d1) \<noteq> 1"
    by (auto simp: apply_one_def Let_def split: option.splits if_splits prod.splits)
  then have False
    using write_ref_cas [of X c now ?d1] cas_steady [of ?d1 d] barrier_pre [of d X barrier c] by metis
  then show ?thesis ..
qed

lemma apply_one_landed:
  assumes "apply_one X head c push who now True barrier scopes d = (d', Inr None)"
  shows "refuse X head c scopes d = Inr None
    \<and> expects X (entry_of c push who now) (ref_map d)
    \<and> ref_map d' = play X (entry_of c push who now) (ref_map d)
    \<and> t_reflog d' = t_reflog d @ [entry_of c push who now]
    \<and> steady d d'"
proof -
  let ?d1 = "barrier_landing X barrier c d"
  have ok: "refuse X head c scopes d = Inr None"
    using assms by (auto simp: apply_one_def split: sum.splits option.splits)
  then have one: "snd (write_ref X c now ?d1) = 1" and d': "d' = log_ref c push who now (fst (write_ref X c now ?d1))"
    using assms by (auto simp: apply_one_def Let_def split: if_splits prod.splits)
  note pre = barrier_pre [of d X barrier c]
  have nn: "\<not> (is_null X (c_old c) \<and> is_null X (c_new c))"
    using ok by (auto simp: refuse_def split: if_splits)
  have m: "ref_map ?d1 = ref_map d" using pre by (intro ref_map_cong) simp
  have "ref_cas_ok ?d1 (c_name c) (is_null X (c_old c)) (c_old c)"
    using one write_ref_cas [of X c now ?d1] by simp
  then have "expects X (entry_of c push who now) (ref_map d)"
    unfolding ref_cas_ok_map m by (simp add: expects_def entry_of_def)
  moreover have "ref_map d' = play X (entry_of c push who now) (ref_map d)"
    unfolding d' using write_ref_yes [OF one nn] m by (simp add: play_def entry_of_def)
  moreover have "t_reflog d' = t_reflog d @ [entry_of c push who now]"
    unfolding d' using write_ref_frame [of ?d1 X c now] pre by (simp add: log_ref_def entry_of_def)
  moreover have "steady d d'"
    unfolding d' using pre write_ref_frame [of ?d1 X c now] steady_trans log_ref_frame(1) by meson
  ultimately show ?thesis using ok by simp
qed

section \<open>The checks a landed row has passed\<close>

definition entry_ok :: "ext \<Rightarrow> string \<Rightarrow> string option list \<Rightarrow> db \<Rightarrow> reflog_row \<Rightarrow> bool" where
  "entry_ok X head scopes d e \<longleftrightarrow>
     starts_with ''refs/'' (l_name e) \<and> name_ok X (l_name e)
     \<and> list_all (\<lambda>s. scope_allows s (l_name e)) scopes
     \<and> pin_sha d (l_name e) = None
     \<and> (is_null X (l_new e) \<longrightarrow> l_name e \<noteq> head)
     \<and> (is_protected d (l_name e) \<longrightarrow> \<not> is_null X (l_new e)
          \<and> (is_null X (l_old e) \<or> ff_ancestor d (l_old e) (l_new e) = Some True))
     \<and> (\<not> is_null X (l_new e) \<longrightarrow> obj_live d (l_new e))"

lemma refuse_ok:
  assumes "refuse X head c scopes d = Inr None"
  shows "entry_ok X head scopes d (entry_of c push who now)"
proof -
  from assms have base: "starts_with ''refs/'' (c_name c)" "name_ok X (c_name c)" "list_all (\<lambda>s. scope_allows s (c_name c)) scopes"
    "pin_sha d (c_name c) = None" "is_null X (c_new c) \<longrightarrow> c_name c \<noteq> head"
    by (auto simp: refuse_def Let_def split: if_splits)
  from assms have "is_protected d (c_name c) \<Longrightarrow>
      protected_verdict (is_null X (c_old c)) (is_null X (c_new c))
        (if is_null X (c_old c) \<or> is_null X (c_new c) then None else ff_ancestor d (c_old c) (c_new c)) = None"
    by (simp add: refuse_def Let_def split: if_splits option.splits)
  then have prot: "is_protected d (c_name c) \<Longrightarrow> \<not> is_null X (c_new c) \<and> (is_null X (c_old c) \<or> ff_ancestor d (c_old c) (c_new c) = Some True)"
    unfolding protected_verdict_None by (auto split: if_splits)
  have "\<exists>ls. lookup X d [c_new c] = Inr ls \<and> hd ls \<noteq> None" if "\<not> is_null X (c_new c)"
    using assms that by (simp add: refuse_def Let_def split: if_splits option.splits sum.splits)
  then have "\<not> is_null X (c_new c) \<Longrightarrow> obj_live d (c_new c)"
    using lookup_one [of X d "c_new c"] by fastforce
  with base prot show ?thesis by (simp add: entry_ok_def entry_of_def)
qed

lemma refuse_error: "refuse X head c scopes d = Inl e \<Longrightarrow> is_fatal e"
proof -
  assume "refuse X head c scopes d = Inl e"
  then have "lookup X d [c_new c] = Inl e"
    by (simp add: refuse_def Let_def split: if_splits option.splits sum.splits)
  then show "is_fatal e"
    by (auto simp: lookup_def loc_of_def kind_of_def split: list.splits prod.splits sum.splits if_splits)
qed

lemma anc_walk_cong:
  assumes "t_commit_parents d' = t_commit_parents d"
  shows "anc_walk d' n q seen = anc_walk d n q seen"
  using assms
proof (induction d n q seen rule: anc_walk.induct)
  case (2 d limit x q seen)
  have "parents_of d' x = parents_of d x" by (simp add: parents_of_def 2(2))
  with 2(1) [OF _ refl 2(2)] show ?case by (simp add: anc_walk.simps(2) Let_def split: nat.split)
qed simp

lemma ff_ancestor_cong:
  assumes "t_commit_parents d' = t_commit_parents d"
  shows "ff_ancestor d' old new = ff_ancestor d old new"
  by (simp add: ff_ancestor_def anc_walk_cong [OF assms] recorded_def assms Let_def)

lemma obj_live_cong: "t_objects d' = t_objects d \<Longrightarrow> t_packs d' = t_packs d \<Longrightarrow> obj_live d' s = obj_live d s"
  by (simp add: obj_live_def live_rows_def pack_live_def)

lemma entry_ok_steady: "steady d d' \<Longrightarrow> entry_ok X head scopes d' e = entry_ok X head scopes d e"
  using ff_ancestor_cong [of d' d "l_old e" "l_new e"] obj_live_cong [of d' d "l_new e"]
  by (simp add: entry_ok_def steady_def pin_sha_def is_protected_def)

section \<open>All commands of a push\<close>

definition landed :: "cmd list \<Rightarrow> (string \<times> string option) list \<Rightarrow> string \<Rightarrow> string \<Rightarrow> int \<Rightarrow> reflog_row list" where
  "landed cs rs push who now = map (\<lambda>(c, _). entry_of c push who now) (filter (\<lambda>(_, (_, r)). r = None) (zip cs rs))"

lemma apply_all_names: "apply_all f cs d = (d', Inr rs) \<Longrightarrow> map fst rs = map c_name cs"
  by (induction cs arbitrary: d rs) (auto split: prod.splits sum.splits)

text \<open>A run of commands as a journal: the rows appended, in every outcome.\<close>

definition journalled :: "ext \<Rightarrow> string \<Rightarrow> string option list \<Rightarrow> reflog_row list \<Rightarrow> db \<Rightarrow> db \<Rightarrow> bool" where
  "journalled X head scopes es d d' \<longleftrightarrow> t_reflog d' = t_reflog d @ es \<and> journal X es (ref_map d)
     \<and> ref_map d' = replay X es (ref_map d) \<and> (\<forall>e \<in> set es. entry_ok X head scopes d e)"

lemma journalled_nil: "t_reflog d' = t_reflog d \<Longrightarrow> t_refs d' = t_refs d \<Longrightarrow> journalled X head scopes [] d d'"
  using ref_map_cong [of d' d] by (simp add: journalled_def)

lemma journalled_cons:
  assumes "refuse X head c scopes d = Inr None" "expects X (entry_of c push who now) (ref_map d)"
    "ref_map d1 = play X (entry_of c push who now) (ref_map d)"
    "t_reflog d1 = t_reflog d @ [entry_of c push who now]" "steady d d1" "journalled X head scopes es d1 d'"
  shows "journalled X head scopes (entry_of c push who now # es) d d'"
  using assms refuse_ok [OF assms(1), of push who now] entry_ok_steady [OF assms(5)]
  by (simp add: journalled_def)

lemma apply_all_journal:
  assumes "apply_all (\<lambda>c. apply_one X head c push who now True barrier scopes) cs d = (d', out)"
  shows "\<exists>es. journalled X head scopes es d d' \<and> steady d d' \<and> set es \<subseteq> (\<lambda>c. entry_of c push who now) ` set cs
    \<and> (case out of Inl e \<Rightarrow> is_fatal e | Inr rs \<Rightarrow> es = landed cs rs push who now)"
  using assms
proof (induction cs arbitrary: d out)
  case Nil
  then show ?case by (intro exI [of _ "[]"]) (auto simp: landed_def journalled_nil)
next
  case (Cons c cs)
  obtain d1 r where c: "apply_one X head c push who now True barrier scopes d = (d1, r)" by force
  show ?case
  proof (cases r)
    case (Inl e)
    with c have "d1 = d" "is_fatal e" using apply_one_error refuse_error by blast+
    then show ?thesis using Cons.prems c Inl by (intro exI [of _ "[]"]) (auto simp: journalled_nil)
  next
    case (Inr why)
    obtain out1 where rest: "apply_all (\<lambda>c. apply_one X head c push who now True barrier scopes) cs d1 = (d', out1)"
      and out: "out = (case out1 of Inl e \<Rightarrow> Inl e | Inr rs \<Rightarrow> Inr ((c_name c, why) # rs))"
      using Cons.prems c Inr by (auto split: prod.splits sum.splits)
    from Cons.IH [OF rest] obtain es where es: "journalled X head scopes es d1 d'" "steady d1 d'"
      "set es \<subseteq> (\<lambda>c. entry_of c push who now) ` set cs"
      "case out1 of Inl e \<Rightarrow> is_fatal e | Inr rs \<Rightarrow> es = landed cs rs push who now" by blast
    show ?thesis
    proof (cases why)
      case (Some w)
      with c Inr have "d1 = d" using apply_one_refused by metis
      then show ?thesis using es out Some by (intro exI [of _ es]) (auto simp: landed_def split: sum.splits)
    next
      case None
      note L = apply_one_landed [OF c [unfolded Inr None]]
      have "journalled X head scopes (entry_of c push who now # es) d d'"
        using L es(1) by (intro journalled_cons) auto
      moreover have "steady d d'" using L es(2) steady_trans by blast
      ultimately show ?thesis using es(3,4) out None
        by (intro exI [of _ "entry_of c push who now # es"]) (auto simp: landed_def split: sum.splits)
    qed
  qed
qed

lemma apply_all_error:
  "apply_all (\<lambda>c. apply_one X head c push who now wr barrier scopes) cs d = (d', Inl e) \<Longrightarrow> is_fatal e"
proof (induction cs arbitrary: d)
  case (Cons c cs)
  then show ?case
    using apply_one_error refuse_error by (fastforce split: prod.splits sum.splits)
qed simp

lemma apply_all_dry_error:
  "apply_all (\<lambda>c. apply_one X head c push who now False barrier scopes) cs d = (d', Inl e) \<Longrightarrow> d' = d"
proof (induction cs)
  case (Cons c cs)
  obtain d1 r where c: "apply_one X head c push who now False barrier scopes d = (d1, r)" by force
  then have "d1 = d" using apply_one_dry [of X head c push who now barrier scopes d] by simp
  with c Cons show ?case by (auto split: prod.splits sum.splits)
qed simp

lemma apply_all_dry:
  "apply_all (\<lambda>c. apply_one X head c push who now False barrier scopes) cs d = (d', Inr rs) \<Longrightarrow> d' = d"
proof (induction cs arbitrary: rs)
  case (Cons c cs)
  obtain d1 r where c: "apply_one X head c push who now False barrier scopes d = (d1, r)" by force
  then have "d1 = d" using apply_one_dry [of X head c push who now barrier scopes d] by simp
  with c Cons show ?case by (auto split: prod.splits sum.splits)
qed simp

section \<open>The steps around the commands\<close>

text \<open>The tables no step of a commit but the commands writes.\<close>

definition kept :: "db \<Rightarrow> db \<Rightarrow> bool" where
  "kept d d' \<longleftrightarrow> t_refs d' = t_refs d \<and> t_reflog d' = t_reflog d \<and> t_pins d' = t_pins d \<and> t_protected d' = t_protected d
     \<and> t_commit_parents d' = t_commit_parents d \<and> t_objects d' = t_objects d \<and> t_tokens d' = t_tokens d"

lemma kept_refl [simp]: "kept d d"
  by (simp add: kept_def)

lemma kept_trans: "kept d e \<Longrightarrow> kept e f \<Longrightarrow> kept d f"
  by (simp add: kept_def)

text \<open>The same, and the packs too.\<close>

definition held :: "db \<Rightarrow> db \<Rightarrow> bool" where
  "held d d' \<longleftrightarrow> kept d d' \<and> t_packs d' = t_packs d"

lemma held_refl [simp]: "held d d"
  by (simp add: held_def)

lemma held_trans: "held d e \<Longrightarrow> held e f \<Longrightarrow> held d f"
  using kept_trans by (auto simp: held_def)

lemma held_kept: "held d d' \<Longrightarrow> kept d d'"
  by (simp add: held_def)

lemma same_repo_held: "same_repo d d' \<Longrightarrow> held d d' \<and> t_pushes d' = t_pushes d"
  by (cases d; cases d') (simp add: same_repo_def held_def kept_def)

lemma enqueue_held [simp]: "held d (enqueue k at pl d)"
  using same_repo_held [OF enqueue_frame] by blast

lemma meta_held [simp]: "held d (meta_put k v d)" "held d (meta_bump k d)"
  by (simp_all add: held_def kept_def)

lemma finish_push_held [simp]: "held d (finish_push q st now rs d)"
  by (simp add: finish_push_def held_def kept_def)

lemma finish_push_kept [simp]: "kept d (finish_push q st now rs d)"
  using finish_push_held held_kept by blast

lemma demote_kept [simp]: "kept d (demote b p i d)"
  by (simp add: demote_def Let_def kept_def)

lemma adopt_head_held [simp]: "held d (adopt_head d)"
  by (simp add: adopt_head_def split: option.splits)

lemma promote_kept: "promote X strikes now b pack push d = (d', r) \<Longrightarrow> kept d d'"
proof -
  let ?d1 = "if b then barrier_write_pending pack d else d"
  let ?d2 = "?d1\<lparr>t_packs := tbl_update (\<lambda>i k. i = pack \<and> promotable pack push k) (\<lambda>k. k\<lparr>k_state := Live\<rparr>) (t_packs ?d1)\<rparr>"
  assume "promote X strikes now b pack push d = (d', r)"
  then have "d' = ?d2 \<or> d' = trigger X strikes now ?d2"
    by (auto simp: promote_def Let_def split: if_splits)
  moreover have "kept d ?d2" by (simp add: kept_def barrier_write_pending_def)
  ultimately show "kept d d'" using same_repo_held [OF trigger_frame] held_kept kept_trans by blast
qed

lemma record_push_event_held: "record_push_event X q cmds rs now d = (d', r) \<Longrightarrow> held d d'"
proof -
  assume "record_push_event X q cmds rs now d = (d', r)"
  then consider "d' = d" | v where "d' = meta_put ''push_events_dropped'' v d"
    | es n where "d' = enqueue PushEvent now ''{}'' (d\<lparr>t_push_events := es, events_seq := n\<rparr>)"
    by (auto simp: record_push_event_def Let_def split: if_splits sum.splits)
  then show "held d d'"
  proof cases
    case 3
    have "held d (d\<lparr>t_push_events := es, events_seq := n\<rparr>)" by (simp add: held_def kept_def)
    then show ?thesis unfolding 3 using enqueue_held held_trans by blast
  qed simp_all
qed

lemma settle_held: "settle X q cmds rs now d = (d', r) \<Longrightarrow> held d d' \<and> (case r of Inr rs' \<Rightarrow> rs' = rs | Inl e \<Rightarrow> is_fatal e)"
proof -
  assume s: "settle X q cmds rs now d = (d', r)"
  let ?d1 = "if list_ex (\<lambda>(_, r). r = None) rs \<or> q_pack_id q \<noteq> None then meta_bump ''refs_version'' d else d"
  let ?d2 = "enqueue GcMark (now + env_i64 X ''GE_GC_QUIET_MS'' 600000) ''{}'' (adopt_head ?d1)"
  obtain d3 o3 where ev: "record_push_event X q cmds rs now ?d2 = (d3, o3)" by force
  have "held d ?d1" by simp
  moreover have "held ?d1 ?d2" using held_trans [OF adopt_head_held enqueue_held] by blast
  moreover have "held ?d2 d3" using record_push_event_held [OF ev] .
  ultimately have "held d d3" "held d ?d1" using held_trans by blast+
  moreover from s have "d' = finish_push q PushCommitted now rs ?d1 \<and> r = Inr rs
      \<or> d' = d3 \<and> (\<exists>e. o3 = Inl e \<and> r = Inl e) \<or> d' = finish_push q PushCommitted now rs d3 \<and> r = Inr rs"
    unfolding settle_def Let_def ev by (auto split: if_splits sum.splits)
  moreover have "o3 = Inl e \<Longrightarrow> is_fatal e" for e
    using ev by (auto simp: record_push_event_def Let_def meta_get_def split: if_splits sum.splits option.splits)
  ultimately show ?thesis using held_trans [OF _ finish_push_held] by auto
qed

section \<open>A whole commit\<close>

text \<open>What the outcome says of the rows that landed.\<close>

definition honest :: "reflog_row list \<Rightarrow> (string \<times> string option) list res \<Rightarrow> bool" where
  "honest es out \<longleftrightarrow>
     (case out of
        Inr rs \<Rightarrow> map l_name es = map fst (filter (\<lambda>(_, r). r = None) rs)
      | Inl e \<Rightarrow> es = [] \<or> is_fatal e)"

lemma landed_names:
  "map fst rs = map c_name cs \<Longrightarrow> map l_name (landed cs rs push who now) = map fst (filter (\<lambda>(_, r). r = None) rs)"
proof (induction cs arbitrary: rs)
  case (Cons c cs)
  then obtain n r rs' where "rs = (n, r) # rs'" by (cases rs) auto
  with Cons show ?case by (auto simp: landed_def entry_of_def)
qed (simp add: landed_def)

lemma journalled_kept:
  "kept d1 d2 \<Longrightarrow> journalled X head scopes es d d1 \<Longrightarrow> journalled X head scopes es d d2"
  using ref_map_cong [of d2 d1] by (simp add: journalled_def kept_def)

lemma quiet_journal:
  "kept d d' \<Longrightarrow> honest [] out \<Longrightarrow> \<exists>es. journalled X head scopes es d d' \<and> set es \<subseteq> S \<and> honest es out \<and> (es \<noteq> [] \<longrightarrow> P)"
  by (intro exI [of _ "[]"]) (simp add: journalled_nil kept_def)

lemma apply_cmds_journal:
  assumes run: "apply_cmds X q cmds now barrier scopes d = (d', out)"
  shows "\<exists>es. journalled X (case meta_opt d ''head'' of Some h \<Rightarrow> h | None \<Rightarrow> []) scopes es d d'
      \<and> set es \<subseteq> (\<lambda>c. entry_of c (q_push_id q) (q_principal q) now) ` set cmds \<and> honest es out \<and> (es \<noteq> [] \<longrightarrow> meta_opt d ''head'' \<noteq> None \<and> t_packs d' = t_packs d)"
proof (cases "meta_opt d ''head''")
  case None
  then show ?thesis
    using run by (intro quiet_journal) (auto simp: apply_cmds_def meta_get_def honest_def)
next
  case (Some head)
  then have h: "meta_get d ''head'' = Inr head" by (simp add: meta_get_def)
  let ?all = "\<lambda>wr. apply_all (\<lambda>c. apply_one X head c (q_push_id q) (q_principal q) now wr barrier scopes) cmds d"
  obtain d1 dry where dr: "?all False = (d1, dry)" by force
  obtain d2 o2 where wr: "?all True = (d2, o2)" by force
  show ?thesis
  proof (cases "q_atomic q \<and> (case dry of Inl _ \<Rightarrow> True | Inr rs \<Rightarrow> list_ex (\<lambda>(_, r). r \<noteq> None) rs)")
    case True
    have "kept d d' \<and> honest [] out"
    proof (cases dry)
      case (Inl e)
      then have "out = Inl e" "d' = d1" using run True h dr by (simp_all add: apply_cmds_def Let_def)
      moreover have "d1 = d" using apply_all_dry_error [OF dr [unfolded Inl]] .
      ultimately show ?thesis by (simp add: honest_def)
    next
      case (Inr rs)
      have "d1 = d" using apply_all_dry dr Inr by metis
      with run True h dr Inr show ?thesis
        by (auto simp: apply_cmds_def Let_def honest_def filter_empty_conv split: option.splits
            intro: kept_trans [OF demote_kept finish_push_kept])
    qed
    then show ?thesis by (intro quiet_journal) auto
  next
    case False
    have out: "(d', out) = (case o2 of Inl e \<Rightarrow> (d2, Inl e) | Inr rs \<Rightarrow> settle X q cmds rs now d2)"
      using run False h dr wr by (auto simp: apply_cmds_def Let_def split: sum.splits if_splits)
    from apply_all_journal [OF wr] obtain es where es: "journalled X head scopes es d d2" "steady d d2"
      "set es \<subseteq> (\<lambda>c. entry_of c (q_push_id q) (q_principal q) now) ` set cmds"
      "case o2 of Inl e \<Rightarrow> is_fatal e | Inr rs \<Rightarrow> es = landed cmds rs (q_push_id q) (q_principal q) now" by blast
    have h2: "held d2 d' \<and> honest es out"
    proof (cases o2)
      case (Inl e)
      then show ?thesis using out es(4) by (simp add: honest_def)
    next
      case (Inr rs)
      then have "settle X q cmds rs now d2 = (d', out)" using out by simp
      from settle_held [OF this] show ?thesis
        using es(4) Inr landed_names [OF apply_all_names [OF wr [unfolded Inr]]]
        by (auto simp: honest_def split: sum.splits)
    qed
    then have "journalled X head scopes es d d'" using journalled_kept held_kept es(1) by blast
    moreover have "t_packs d' = t_packs d" using es(2) h2 by (simp add: steady_def held_def)
    ultimately show ?thesis using es(3) h2 Some by (intro exI [of _ es]) simp
  qed
qed

lemma steady_tables: "steady d d' \<Longrightarrow> t_pins d' = t_pins d \<and> t_protected d' = t_protected d
    \<and> t_commit_parents d' = t_commit_parents d \<and> t_objects d' = t_objects d \<and> t_tokens d' = t_tokens d"
  by (simp add: steady_def)

lemma kept_tables: "kept d d' \<Longrightarrow> t_pins d' = t_pins d \<and> t_protected d' = t_protected d
    \<and> t_commit_parents d' = t_commit_parents d \<and> t_objects d' = t_objects d \<and> t_tokens d' = t_tokens d"
  by (simp add: kept_def)

lemma apply_cmds_tables:
  assumes run: "apply_cmds X q cmds now barrier scopes d = (d', out)"
  shows "t_pins d' = t_pins d \<and> t_protected d' = t_protected d \<and> t_commit_parents d' = t_commit_parents d
    \<and> t_objects d' = t_objects d \<and> t_tokens d' = t_tokens d"
proof (cases "meta_get d ''head''")
  case (Inr head)
  let ?all = "\<lambda>wr. apply_all (\<lambda>c. apply_one X head c (q_push_id q) (q_principal q) now wr barrier scopes) cmds d"
  obtain d1 dry where dr: "?all False = (d1, dry)" by force
  obtain d2 o2 where wr: "?all True = (d2, o2)" by force
  have d1: "d1 = d" using dr apply_all_dry apply_all_dry_error by (cases dry) metis+
  have "steady d d2" using apply_all_journal [OF wr] by blast
  note d2 = steady_tables [OF this]
  from run Inr dr wr consider "d' = d1" | p st rs where "d' = finish_push q st now rs (demote barrier p (q_push_id q) d1)"
    | st rs where "d' = finish_push q st now rs d1" | "d' = d2" | rs where "settle X q cmds rs now d2 = (d', out)"
    by (auto simp: apply_cmds_def Let_def split: sum.splits if_splits option.splits)
  then show ?thesis
  proof cases
    case (2 p st rs)
    then show ?thesis using kept_tables [OF kept_trans [OF demote_kept finish_push_kept]] d1 by simp
  next
    case (3 st rs)
    then show ?thesis using kept_tables [OF finish_push_kept] d1 by simp
  next
    case (5 rs)
    then have "kept d2 d'" using settle_held held_kept by blast
    then show ?thesis using kept_tables d2 by simp
  qed (simp_all add: d1 d2)
qed (use run in \<open>auto simp: apply_cmds_def\<close>)

text \<open>
  A push that may land refs: the row it opened is still open, its credential still stands, no
  collection ended since, and its pack, if any, has just been promoted.
\<close>

definition cleared :: "ext \<Rightarrow> (string \<Rightarrow> (string \<times> int) list option) \<Rightarrow> int \<Rightarrow> commit_req \<Rightarrow> db \<Rightarrow> push_row \<Rightarrow> string option \<Rightarrow> db \<Rightarrow> bool" where
  "cleared X strikes now q d p current d1 \<longleftrightarrow>
     map_of (t_pushes d) (q_push_id q) = Some p \<and> p_state p = PushOpen
     \<and> commit_auth (p_auth p) (credential_row now p d) = Inr current
     \<and> meta_i64 d ''gc_epoch'' = Inr (p_gc_epoch p)
     \<and> (case q_pack_id q of None \<Rightarrow> d1 = d
        | Some pack \<Rightarrow> over_quota X (q_push_id q) d = None
            \<and> promote X strikes now (barrier_active d) pack (q_push_id q) d = (d1, Inr ()))"

definition both_scopes :: "push_row \<Rightarrow> string option \<Rightarrow> string option list" where
  "both_scopes p current = [p_scope p, case current of Some s \<Rightarrow> Some s | None \<Rightarrow> p_scope p]"

lemma cleared_kept: "cleared X strikes now q d p current d1 \<Longrightarrow> kept d d1"
  using promote_kept by (auto simp: cleared_def split: option.splits)

text \<open>Either a commit lands nothing, or it is cleared and runs its commands.\<close>

lemma commit_cases:
  assumes run: "commit_push X strikes now q d = (d', out)"
  obtains (quiet) "kept d d'" "honest [] out"
  | (cleared) p current d1 cmds where "cleared X strikes now q d p current d1"
      "traverse (parse_cmd X) (q_commands q) = Inr cmds"
      "apply_cmds X q cmds now (barrier_active d) (both_scopes p current) d1 = (d', out)"
proof (cases "\<exists>p current d1 cmds. cleared X strikes now q d p current d1 \<and> traverse (parse_cmd X) (q_commands q) = Inr cmds
      \<and> apply_cmds X q cmds now (barrier_active d) (both_scopes p current) d1 = (d', out)")
  case True
  then show ?thesis using cleared by blast
next
  case False
  have rej: "kept d (finish_push q PushRejected now (map (\<lambda>c. (c_name c, Some why)) cmds) d)
      \<and> honest [] (Inr (map (\<lambda>c. (c_name c, Some why)) cmds))" for why cmds
    by (simp add: honest_def filter_empty_conv)
  have "kept d d' \<and> honest [] out"
  proof (cases "traverse (parse_cmd X) (q_commands q)")
    case (Inl e)
    then show ?thesis using run by (auto simp: commit_push_def honest_def)
  next
    case (Inr cmds)
    show ?thesis
    proof (cases "\<exists>p current. map_of (t_pushes d) (q_push_id q) = Some p \<and> p_state p = PushOpen
        \<and> commit_auth (p_auth p) (credential_row now p d) = Inr current \<and> meta_i64 d ''gc_epoch'' = Inr (p_gc_epoch p)")
      case no: False
      then show ?thesis
        using run Inr rej by (auto simp: commit_push_def Let_def honest_def split: option.splits if_splits sum.splits)
    next
      case True
      then obtain p current where pc: "map_of (t_pushes d) (q_push_id q) = Some p" "p_state p = PushOpen"
        "commit_auth (p_auth p) (credential_row now p d) = Inr current" "meta_i64 d ''gc_epoch'' = Inr (p_gc_epoch p)" by blast
      show ?thesis
      proof (cases "q_pack_id q")
        case None
        then show ?thesis using run Inr pc False by (auto simp: commit_push_def Let_def cleared_def both_scopes_def)
      next
        case (Some pack)
        obtain d1 r where pr: "promote X strikes now (barrier_active d) pack (q_push_id q) d = (d1, r)" by force
        with Some run Inr pc False promote_kept [OF pr] rej show ?thesis
          by (auto simp: commit_push_def Let_def cleared_def both_scopes_def honest_def split: option.splits sum.splits)
      qed
    qed
  qed
  then show ?thesis using quiet by blast
qed

end
