(* ===== verification/Commit_Claims.thy ===== *)
theory Commit_Claims
  imports Commit_Safety
begin

text \<open>
  What a commit guarantees, read off its journal: the refs are the replay of the rows it logs, only
  an open push with a standing credential moves a ref and only inside its scope, pinned refs stay,
  protected refs only move forward, and every new target is an object a reader finds.
\<close>

section \<open>The journal of a commit\<close>

lemma commit_run:
  assumes "commit_push X strikes now q d = (d', out)"
  shows "\<exists>es. t_reflog d' = t_reflog d @ es \<and> journal X es (ref_map d) \<and> ref_map d' = replay X es (ref_map d)
    \<and> honest es out \<and> (\<forall>e \<in> set es. l_push_id e = q_push_id q \<and> l_principal e = q_principal q \<and> l_at e = now)
    \<and> (es \<noteq> [] \<longrightarrow> (\<exists>p current d1 head. cleared X strikes now q d p current d1 \<and> meta_opt d1 ''head'' = Some head
          \<and> t_packs d' = t_packs d1 \<and> (\<forall>e \<in> set es. entry_ok X head (both_scopes p current) d1 e)))
    \<and> t_pins d' = t_pins d \<and> t_protected d' = t_protected d \<and> t_commit_parents d' = t_commit_parents d \<and> t_objects d' = t_objects d"
  using assms
proof (cases rule: commit_cases)
  case quiet
  then show ?thesis using ref_map_cong [of d' d] by (intro exI [of _ "[]"]) (simp add: kept_def)
next
  case (cleared p current d1 cmds)
  from apply_cmds_journal [OF cleared(3)] obtain es
    where j: "journalled X (case meta_opt d1 ''head'' of Some h \<Rightarrow> h | None \<Rightarrow> []) (both_scopes p current) es d1 d'"
      and c: "set es \<subseteq> (\<lambda>c. entry_of c (q_push_id q) (q_principal q) now) ` set cmds"
      and h: "honest es out" "es \<noteq> [] \<longrightarrow> meta_opt d1 ''head'' \<noteq> None \<and> t_packs d' = t_packs d1" by blast
  note k = cleared_kept [OF cleared(1)]
  have "ref_map d1 = ref_map d" using k by (intro ref_map_cong) (simp add: kept_def)
  moreover have "\<forall>e \<in> set es. l_push_id e = q_push_id q \<and> l_principal e = q_principal q \<and> l_at e = now"
    using c by (auto simp: entry_of_def)
  moreover have "es \<noteq> [] \<longrightarrow> (\<exists>head. meta_opt d1 ''head'' = Some head \<and> (\<forall>e \<in> set es. entry_ok X head (both_scopes p current) d1 e))"
    using j h(2) by (auto simp: journalled_def)
  ultimately show ?thesis
    using j h k cleared(1) apply_cmds_tables [OF cleared(3)] by (intro exI [of _ es]) (auto simp: journalled_def kept_def)
qed

section \<open>Reading the journal\<close>

lemma replay_changed:
  assumes "replay X es m n \<noteq> m n"
  shows "\<exists>e \<in> set es. l_name e = n \<and> replay X es m n = (if is_null X (l_new e) then None else Some (l_new e))"
  using assms
proof (induction es arbitrary: m)
  case (Cons e es)
  show ?case
  proof (cases "replay X es (play X e m) n = play X e m n")
    case True
    with Cons.prems have "l_name e = n" by (auto simp: play_def split: if_splits)
    with True show ?thesis by (auto simp: play_def)
  next
    case False
    with Cons.IH show ?thesis by fastforce
  qed
qed simp

lemma protected_chain:
  assumes "journal X es m" "\<forall>e \<in> set es. l_name e = n \<longrightarrow> \<not> is_null X (l_new e)
      \<and> (is_null X (l_old e) \<or> ff_ancestor d (l_old e) (l_new e) = Some True)" "m n = Some old"
  shows "\<exists>new. replay X es m n = Some new \<and> (new, old) \<in> (parent_rel d)\<^sup>*"
  using assms
proof (induction es arbitrary: m old)
  case (Cons e es)
  show ?case
  proof (cases "l_name e = n")
    case True
    with Cons.prems have e: "l_old e = old" "\<not> is_null X (l_new e)" "ff_ancestor d old (l_new e) = Some True"
      by (auto simp: expects_def split: if_splits)
    then have "(l_new e, old) \<in> (parent_rel d)\<^sup>*" using ff_ancestor_yes by blast
    moreover have "play X e m n = Some (l_new e)" using True e by (simp add: play_def)
    ultimately show ?thesis using Cons.IH [of "play X e m" "l_new e"] Cons.prems by (auto intro: rtrancl_trans)
  next
    case False
    then have "play X e m n = Some old" using Cons.prems by (simp add: play_def)
    then show ?thesis using Cons.IH [of "play X e m" old] Cons.prems by simp
  qed
qed simp

text \<open>A ref that a commit moves was moved by a row that passed every check.\<close>

lemma commit_moved:
  assumes run: "commit_push X strikes now q d = (d', out)" and ne: "ref_map d' n \<noteq> ref_map d n"
  obtains e p current d1 head where "l_name e = n" "ref_map d' n = (if is_null X (l_new e) then None else Some (l_new e))"
    "cleared X strikes now q d p current d1" "entry_ok X head (both_scopes p current) d1 e" "t_packs d' = t_packs d1"
    "t_objects d' = t_objects d1"
proof -
  from commit_run [OF run] obtain es where es: "ref_map d' = replay X es (ref_map d)" "t_objects d' = t_objects d"
    and why: "es \<noteq> [] \<longrightarrow> (\<exists>p current d1 head. cleared X strikes now q d p current d1 \<and> meta_opt d1 ''head'' = Some head
          \<and> t_packs d' = t_packs d1 \<and> (\<forall>e \<in> set es. entry_ok X head (both_scopes p current) d1 e))" by blast
  from ne obtain e where e: "e \<in> set es" "l_name e = n" "ref_map d' n = (if is_null X (l_new e) then None else Some (l_new e))"
    unfolding es using replay_changed by metis
  with why obtain p current d1 head where c: "cleared X strikes now q d p current d1" "t_packs d' = t_packs d1"
    "entry_ok X head (both_scopes p current) d1 e" by (metis empty_iff list.set(1))
  then show ?thesis using that [OF e(2,3)] kept_tables [OF cleared_kept [OF c(1)]] es(2) by simp
qed

section \<open>A run of the model\<close>

text \<open>
  A repository whose only branch, protected, is at \<open>a1\<close>, and a push under a scoped token that moves
  it to the child \<open>b2\<close>.
\<close>

definition demo_ext :: ext where
  "demo_ext = plain_ext\<lparr>from_hex := Inr\<rparr>"

definition demo_push :: push_row where
  "demo_push = \<lparr>p_state = PushOpen, p_pack_id = None, p_principal = ''dev'', p_began_at = 1, p_ended_at = None, p_gc_epoch = 0,
     p_result = None, p_swept_at = None, p_scope = Some ''refs/heads/*'', p_auth = Some ''h1''\<rparr>"

definition demo_db :: db where
  "demo_db = empty_db\<lparr>
     t_meta := [(''head'', ''refs/heads/main''), (''gc_epoch'', ''0''), (''refs_version'', ''7'')],
     t_refs := [(''refs/heads/main'', \<lparr>r_target = ''a1'', r_peeled = None, r_updated_at = 0\<rparr>)],
     t_pushes := [(''p1'', demo_push)],
     t_packs := [(''k1'', \<lparr>k_state = Live, k_count = 2, k_bytes = 90, k_commit_lo = 0, k_commit_hi = 90, k_push_id = None,
                           k_created_at = 0, k_dead_at = None\<rparr>)],
     t_objects := [((''a1'', ''k1''), \<lparr>o_idx = 0, o_offset = 12, o_len = 30, o_kind = 1, o_size = 40\<rparr>),
                   ((''b2'', ''k1''), \<lparr>o_idx = 1, o_offset = 42, o_len = 30, o_kind = 1, o_size = 40\<rparr>)],
     t_tokens := [(''t1'', \<lparr>tk_hash = ''h1'', tk_level = ''write'', tk_name = ''ci'', tk_created_at = 0,
                            tk_scope = Some ''refs/heads/*'', tk_expires_at = None\<rparr>)],
     t_protected := [(''refs/heads/*'', 0)],
     t_commit_parents := [((''a1'', - 1), None), ((''b2'', - 1), None), ((''b2'', 0), Some ''a1'')]\<rparr>"

definition demo_req :: commit_req where
  "demo_req = \<lparr>q_push_id = ''p1'', q_pack_id = None, q_principal = ''dev'',
     q_commands = [\<lparr>c_old = ''a1'', c_new = ''b2'', c_name = ''refs/heads/main'', c_peeled = None\<rparr>], q_atomic = True\<rparr>"

lemma demo_ff: "ff_ancestor demo_db ''a1'' ''b2'' = Some True"
  by (simp add: ff_ancestor_def FF_WALK_MAX_def demo_db_def empty_db_def parents_of_def anc_walk.simps)

lemma demo_protected: "is_protected demo_db ''refs/heads/main''"
  by (code_simp)

definition demo_cmd :: cmd where
  "demo_cmd = \<lparr>c_old = ''a1'', c_new = ''b2'', c_name = ''refs/heads/main'', c_peeled = None\<rparr>"

lemma demo_refuse: "refuse demo_ext ''refs/heads/main'' demo_cmd [Some ''refs/heads/*'', Some ''refs/heads/*''] demo_db = Inr None"
proof -
  have "scope_allows (Some ''refs/heads/*'') ''refs/heads/main''" "starts_with ''refs/'' ''refs/heads/main''"
    "protected_verdict False False (Some True) = None" by code_simp+
  moreover have "\<exists>l. lookup demo_ext demo_db [''b2''] = Inr [Some l]"
    by (simp add: lookup_def live_rows_def pack_live_def demo_db_def empty_db_def demo_ext_def plain_ext_def loc_of_def kind_of_def)
  moreover have "\<not> is_null demo_ext ''a1''" "\<not> is_null demo_ext ''b2''" "name_ok demo_ext ''refs/heads/main''"
    "pin_sha demo_db ''refs/heads/main'' = None"
    by (simp_all add: demo_ext_def plain_ext_def pin_sha_def demo_db_def empty_db_def)
  ultimately show ?thesis
    by (auto simp: refuse_def demo_cmd_def demo_ff demo_protected)
qed

definition demo_moved :: db where
  "demo_moved = log_ref demo_cmd ''p1'' ''dev'' 5
     (demo_db\<lparr>t_refs := [(''refs/heads/main'', \<lparr>r_target = ''b2'', r_peeled = None, r_updated_at = 5\<rparr>)]\<rparr>)"

lemma demo_apply:
  "apply_one demo_ext ''refs/heads/main'' demo_cmd ''p1'' ''dev'' 5 False False [Some ''refs/heads/*'', Some ''refs/heads/*''] demo_db = (demo_db, Inr None)"
  "apply_one demo_ext ''refs/heads/main'' demo_cmd ''p1'' ''dev'' 5 True False [Some ''refs/heads/*'', Some ''refs/heads/*''] demo_db = (demo_moved, Inr None)"
  unfolding apply_one_def demo_refuse
  by (simp_all add: ref_cas_ok_def write_ref_def demo_cmd_def demo_moved_def demo_ext_def plain_ext_def demo_db_def empty_db_def
      Let_def)

lemma demo_credential:
  "commit_auth (p_auth demo_push) (credential_row 5 demo_push demo_db) = Inr (Some ''refs/heads/*'')"
proof -
  have "credential_row 5 demo_push demo_db = Some (''write'', Some ''refs/heads/*'')"
    by (simp add: credential_row_def live_token_def token_by_hash_def token_live_def demo_push_def demo_db_def ADMIN_AUTH_def)
  moreover have "commit_auth (Some ''h1'') (Some (''write'', Some ''refs/heads/*'')) = Inr (Some ''refs/heads/*'')" by code_simp
  ultimately show ?thesis by (simp add: demo_push_def)
qed

lemma demo_epoch: "meta_i64 demo_db ''gc_epoch'' = Inr 0"
proof -
  have "int_dec 0 = ''0''" by code_simp
  then have "parse_i64 ''0'' = Some 0" using parse_i64_int_dec [of 0] by simp
  then show ?thesis by (simp add: meta_i64_def meta_get_def meta_opt_def demo_db_def)
qed

lemma demo_cleared:
  "traverse (parse_cmd demo_ext) (q_commands demo_req) = Inr [demo_cmd]"
  "map_of (t_pushes demo_db) ''p1'' = Some demo_push" "barrier_active demo_db = False"
  "meta_get demo_db ''head'' = Inr ''refs/heads/main''"
  by (simp_all add: parse_cmd_def oid_def demo_ext_def demo_req_def demo_cmd_def demo_db_def barrier_active_def meta_get_def meta_opt_def)

lemma demo_fields:
  "p_state demo_push = PushOpen" "p_gc_epoch demo_push = 0" "p_scope demo_push = Some ''refs/heads/*''"
  "q_push_id demo_req = ''p1''" "q_pack_id demo_req = None" "q_principal demo_req = ''dev''" "q_atomic demo_req"
  "c_name demo_cmd = ''refs/heads/main''"
  by (simp_all add: demo_push_def demo_req_def demo_cmd_def)

lemma demo_run:
  "commit_push demo_ext (\<lambda>_. None) 5 demo_req demo_db
     = settle demo_ext demo_req [demo_cmd] [(''refs/heads/main'', None)] 5 demo_moved"
  by (simp add: commit_push_def apply_cmds_def demo_cleared demo_credential demo_epoch demo_apply demo_fields Let_def)

lemma demo_refs: "ref_map demo_db ''refs/heads/main'' = Some ''a1''"
    "ref_map (fst (commit_push demo_ext (\<lambda>_. None) 5 demo_req demo_db)) ''refs/heads/main'' = Some ''b2''"
proof -
  let ?s = "settle demo_ext demo_req [demo_cmd] [(''refs/heads/main'', None)] 5 demo_moved"
  have "held demo_moved (fst ?s)" using settle_held [of demo_ext demo_req _ _ _ _ "fst ?s" "snd ?s"] by simp
  then have "ref_map (fst ?s) = ref_map demo_moved" by (intro ref_map_cong) (simp add: held_def kept_def)
  then show "ref_map (fst (commit_push demo_ext (\<lambda>_. None) 5 demo_req demo_db)) ''refs/heads/main'' = Some ''b2''"
    by (simp add: demo_run demo_moved_def) (simp add: ref_map_def)
qed (simp add: ref_map_def demo_db_def)

section \<open>What a commit guarantees\<close>

text \<open>
  C3. The reflog is the journal of the refs: whatever the outcome of a commit, the rows it appends
  are its own (push, principal, time); each names as its old value the value the ref had at its
  turn; replayed on the refs before, they give the refs after; and the refs reported as updated are
  exactly the rows that landed, while an error that the client sees as such lands none.
\<close>

theorem commit_journal:
  assumes "commit_push X strikes now q d = (d', out)"
  shows "\<exists>es. t_reflog d' = t_reflog d @ es \<and> journal X es (ref_map d) \<and> ref_map d' = replay X es (ref_map d) \<and> honest es out
    \<and> (\<forall>e \<in> set es. l_push_id e = q_push_id q \<and> l_principal e = q_principal q \<and> l_at e = now)"
  using commit_run [OF assms] by (elim exE conjE) (intro exI conjI)

theorem commit_journal_witness:
  "\<exists>es. t_reflog (fst (commit_push demo_ext (\<lambda>_. None) 5 demo_req demo_db)) = es
     \<and> journal demo_ext es (ref_map demo_db)
     \<and> replay demo_ext es (ref_map demo_db) ''refs/heads/main'' = Some ''b2''"
  using commit_journal [of demo_ext "\<lambda>_. None" 5 demo_req demo_db, OF surjective_pairing] demo_refs(2)
  by (auto simp: demo_db_def empty_db_def)

text \<open>
  C4. Authority: a commit moves a ref only for a push that is still open, whose captured scope
  covers the ref, and which was opened by the deployment's administrator or under a token that at
  this moment is still there, not expired, at write level, and whose current scope covers the ref
  too. So revoking, expiring or narrowing a token while the pack streams stops the push.
\<close>

theorem commit_authority:
  assumes "commit_push X strikes now q d = (d', out)" and "ref_map d' n \<noteq> ref_map d n"
  shows "\<exists>p. map_of (t_pushes d) (q_push_id q) = Some p \<and> p_state p = PushOpen \<and> scope_allows (p_scope p) n
    \<and> (trimmed (p_auth p) = Some ADMIN_AUTH
        \<or> (\<exists>h t. p_auth p = Some h \<and> live_token h now d = Some t \<and> tk_level t = ''write'' \<and> scope_allows (trimmed (tk_scope t)) n))"
proof -
  obtain e p current d1 head where e: "l_name e = n" and c: "cleared X strikes now q d p current d1"
    and ok: "entry_ok X head (both_scopes p current) d1 e" using commit_moved [OF assms] by metis
  have sc: "scope_allows (p_scope p) n" "\<And>s. current = Some s \<Longrightarrow> scope_allows (Some s) n"
    using ok e by (auto simp: entry_ok_def both_scopes_def)
  have auth: "commit_auth (p_auth p) (credential_row now p d) = Inr current" using c by (simp add: cleared_def)
  show ?thesis
  proof (cases current)
    case None
    then show ?thesis using c sc auth commit_auth_admin by (auto simp: cleared_def)
  next
    case (Some s)
    with auth obtain sc' where r: "credential_row now p d = Some (''write'', sc')" "trimmed sc' = Some s"
      using commit_auth_Some by metis
    then obtain h t where "p_auth p = Some h" "live_token h now d = Some t" "tk_level t = ''write''" "tk_scope t = sc'"
      by (auto simp: credential_row_def split: option.splits if_splits)
    then show ?thesis using c sc Some r by (auto simp: cleared_def)
  qed
qed

theorem commit_authority_witness:
  "\<exists>p. map_of (t_pushes demo_db) (q_push_id demo_req) = Some p \<and> p_state p = PushOpen \<and> scope_allows (p_scope p) ''refs/heads/main''"
  using commit_authority [of demo_ext "\<lambda>_. None" 5 demo_req demo_db, OF surjective_pairing, of "''refs/heads/main''"] demo_refs
  by auto

text \<open>
  C5. Frozen history: a commit leaves every pinned ref where it is, and a protected ref that exists
  is never deleted and only moves to a commit from which its old value is reached along recorded
  parents, for every credential and through any number of commands on it.
\<close>

theorem commit_respects_protection:
  assumes "commit_push X strikes now q d = (d', out)"
  shows "(pin_sha d n \<noteq> None \<longrightarrow> ref_map d' n = ref_map d n)
    \<and> (is_protected d n \<longrightarrow> (\<forall>old. ref_map d n = Some old \<longrightarrow>
         (\<exists>new. ref_map d' n = Some new \<and> (new, old) \<in> (parent_rel d)\<^sup>*)))"
proof (intro conjI impI allI)
  assume pin: "pin_sha d n \<noteq> None"
  show "ref_map d' n = ref_map d n"
  proof (rule ccontr)
    assume "ref_map d' n \<noteq> ref_map d n"
    then obtain e p current d1 head where "l_name e = n" "cleared X strikes now q d p current d1"
      "entry_ok X head (both_scopes p current) d1 e" using commit_moved [OF assms] by metis
    then show False using pin kept_tables [OF cleared_kept] by (auto simp: entry_ok_def pin_sha_def)
  qed
next
  fix old
  assume pr: "is_protected d n" and old: "ref_map d n = Some old"
  from commit_run [OF assms] obtain es where es: "journal X es (ref_map d)" "ref_map d' = replay X es (ref_map d)"
    and why: "es \<noteq> [] \<longrightarrow> (\<exists>p current d1 head. cleared X strikes now q d p current d1 \<and> meta_opt d1 ''head'' = Some head
          \<and> t_packs d' = t_packs d1 \<and> (\<forall>e \<in> set es. entry_ok X head (both_scopes p current) d1 e))" by blast
  have "\<forall>e \<in> set es. l_name e = n \<longrightarrow> \<not> is_null X (l_new e) \<and> (is_null X (l_old e) \<or> ff_ancestor d (l_old e) (l_new e) = Some True)"
  proof (intro ballI impI)
    fix e assume e: "e \<in> set es" "l_name e = n"
    with why obtain p current d1 head where c: "cleared X strikes now q d p current d1"
      "entry_ok X head (both_scopes p current) d1 e" by (metis empty_iff list.set(1))
    note k = kept_tables [OF cleared_kept [OF c(1)]]
    then show "\<not> is_null X (l_new e) \<and> (is_null X (l_old e) \<or> ff_ancestor d (l_old e) (l_new e) = Some True)"
      using c(2) e(2) pr ff_ancestor_cong [of d1 d] by (auto simp: entry_ok_def is_protected_def)
  qed
  from protected_chain [OF es(1) this old]
  show "\<exists>new. ref_map d' n = Some new \<and> (new, old) \<in> (parent_rel d)\<^sup>*" unfolding es(2) .
qed

theorem commit_respects_protection_witness:
  "is_protected demo_db ''refs/heads/main'' \<and> (''b2'', ''a1'') \<in> (parent_rel demo_db)\<^sup>*"
  using commit_respects_protection [of demo_ext "\<lambda>_. None" 5 demo_req demo_db, OF surjective_pairing, of "''refs/heads/main''"]
    demo_refs demo_protected by auto

text \<open>
  C6. No dangling ref: the new target of every ref a commit moves is, in the database it leaves, an
  object that the reader query finds in a live pack.
\<close>

theorem commit_targets_live:
  assumes "commit_push X strikes now q d = (d', out)" and "ref_map d' n \<noteq> ref_map d n" and "ref_map d' n = Some t"
  shows "obj_live d' t"
proof -
  obtain e p current d1 head where e: "ref_map d' n = (if is_null X (l_new e) then None else Some (l_new e))"
    "entry_ok X head (both_scopes p current) d1 e" "t_packs d' = t_packs d1" "t_objects d' = t_objects d1"
    using commit_moved [OF assms(1,2)] by metis
  then show ?thesis using assms(3) obj_live_cong [of d' d1] by (auto simp: entry_ok_def split: if_splits)
qed

theorem commit_targets_live_witness:
  "obj_live (fst (commit_push demo_ext (\<lambda>_. None) 5 demo_req demo_db)) ''b2''"
  using commit_targets_live [of demo_ext "\<lambda>_. None" 5 demo_req demo_db, OF surjective_pairing, of "''refs/heads/main''" "''b2''"] demo_refs
  by simp

end
