(* ===== verification/Commit_Atomic.thy ===== *)
theory Commit_Atomic
  imports Commit_Claims
begin

text \<open>
  The atomic push: its dry run decides, and under what condition on the commands the decision
  binds. Two commands on one ref, or creates that cross the ref limit together, are judged against
  the same state by the dry run and against each other by the writes.
\<close>

section \<open>From the dry run to the writes\<close>

lemma lookup_cong: "t_objects d' = t_objects d \<Longrightarrow> t_packs d' = t_packs d \<Longrightarrow> lookup X d' ids = lookup X d ids"
  by (simp add: lookup_def live_rows_def pack_live_def)

lemma refuse_steady:
  assumes "steady d d'" and "refuse X head c scopes d = Inr None" and "length (t_refs d') < MAX_REFS"
  shows "refuse X head c scopes d' = Inr None"
proof -
  have "pin_sha d' (c_name c) = pin_sha d (c_name c)" "is_protected d' (c_name c) = is_protected d (c_name c)"
    using assms(1) by (simp_all add: steady_def pin_sha_def is_protected_def)
  moreover have "ff_ancestor d' (c_old c) (c_new c) = ff_ancestor d (c_old c) (c_new c)"
    using assms(1) by (intro ff_ancestor_cong) (simp add: steady_def)
  moreover have "lookup X d' [c_new c] = lookup X d [c_new c]"
    using assms(1) by (intro lookup_cong) (simp_all add: steady_def)
  ultimately show ?thesis
    using assms(2,3) by (auto simp: refuse_def Let_def split: if_splits option.splits sum.splits)
qed

lemma write_ref_length: "length (t_refs (fst (write_ref X c now d))) \<le> Suc (length (t_refs d))"
  using length_tbl_put length_tbl_del le_SucI
  by (fastforce simp: write_ref_def Let_def split: option.splits)

lemma apply_one_redo:
  assumes dry: "apply_one X head c push who now False barrier scopes d0 = (d0, Inr None)"
    and d: "steady d0 d" "ref_map d (c_name c) = ref_map d0 (c_name c)" "length (t_refs d) < MAX_REFS"
  shows "\<exists>d'. apply_one X head c push who now True barrier scopes d = (d', Inr None) \<and> length (t_refs d') \<le> Suc (length (t_refs d))"
proof -
  let ?d1 = "barrier_landing X barrier c d"
  have r0: "refuse X head c scopes d0 = Inr None" and "ref_cas_ok d0 (c_name c) (is_null X (c_old c)) (c_old c)"
    using dry by (auto simp: apply_one_def Let_def split: sum.splits option.splits if_splits)
  then have cas: "ref_cas_ok d (c_name c) (is_null X (c_old c)) (c_old c)" by (simp add: ref_cas_ok_map d(2))
  then have "snd (write_ref X c now ?d1) = 1"
    using write_ref_cas [of X c now ?d1] cas_steady [of ?d1 d] barrier_pre [of d X barrier c] by metis
  then obtain d2 where w: "write_ref X c now ?d1 = (d2, 1)" by (metis prod.collapse)
  moreover have "length (t_refs (fst (write_ref X c now ?d1))) \<le> Suc (length (t_refs d))"
    using write_ref_length [of X c now ?d1] barrier_pre [of d X barrier c] by simp
  ultimately show ?thesis
    using cas refuse_steady [OF d(1) r0 d(3)] by (simp add: apply_one_def Let_def)
qed

lemma apply_all_redo:
  assumes "apply_all (\<lambda>c. apply_one X head c push who now False barrier scopes) cs d0 = (d0, Inr rs)"
    "list_all (\<lambda>(_, r). r = None) rs" "distinct (map c_name cs)" "steady d0 d"
    "\<forall>c \<in> set cs. ref_map d (c_name c) = ref_map d0 (c_name c)" "length (t_refs d) + length cs \<le> MAX_REFS"
  shows "\<exists>d'. apply_all (\<lambda>c. apply_one X head c push who now True barrier scopes) cs d = (d', Inr rs)"
  using assms
proof (induction cs arbitrary: d rs)
  case (Cons c cs)
  obtain d1 r where "apply_one X head c push who now False barrier scopes d0 = (d1, r)" by force
  moreover from this have "d1 = d0" using apply_one_dry [of X head c push who now barrier scopes d0] by simp
  ultimately have dry: "apply_one X head c push who now False barrier scopes d0 = (d0, Inr None)"
    and "\<exists>rs'. rs = (c_name c, None) # rs' \<and> apply_all (\<lambda>c. apply_one X head c push who now False barrier scopes) cs d0 = (d0, Inr rs')"
    using Cons.prems(1,2) by (auto split: sum.splits prod.splits)
  then obtain rs' where rs: "rs = (c_name c, None) # rs'"
    and rest: "apply_all (\<lambda>c. apply_one X head c push who now False barrier scopes) cs d0 = (d0, Inr rs')" by blast
  obtain d2 where d2: "apply_one X head c push who now True barrier scopes d = (d2, Inr None)" "length (t_refs d2) \<le> Suc (length (t_refs d))"
    using apply_one_redo [OF dry Cons.prems(4)] Cons.prems(5,6) by auto
  note L = apply_one_landed [OF d2(1)]
  have "\<forall>c' \<in> set cs. c_name c' \<noteq> c_name c" using Cons.prems(3) by (simp add: image_iff) metis
  then have "\<forall>c' \<in> set cs. ref_map d2 (c_name c') = ref_map d0 (c_name c')"
    using L Cons.prems(5) by (auto simp: play_def entry_of_def)
  moreover have "steady d0 d2" using L Cons.prems(4) steady_trans by blast
  ultimately show ?case
    using Cons.IH [OF rest _ _ \<open>steady d0 d2\<close>] Cons.prems(2,3,6) d2 by (auto simp: rs)
qed simp

lemma parse_cmds_names:
  "traverse (parse_cmd X) cs = Inr cmds \<Longrightarrow> map c_name cmds = map c_name cs"
  by (induction cs arbitrary: cmds) (auto simp: parse_cmd_def split: sum.splits)

text \<open>
  C9. An atomic push whose commands name each ref once, and whose creates fit under the ref limit
  together, lands whole or not at all: either every command is reported as done, or none is and
  neither a ref nor the reflog has changed.
\<close>

theorem atomic_all_or_none:
  assumes run: "commit_push X strikes now q d = (d', Inr rs)" and q: "q_atomic q" "distinct (map c_name (q_commands q))"
    and fits: "length (t_refs d) + length (q_commands q) \<le> MAX_REFS"
  shows "list_all (\<lambda>(_, r). r = None) rs
    \<or> list_all (\<lambda>(_, r). r \<noteq> None) rs \<and> t_refs d' = t_refs d \<and> t_reflog d' = t_reflog d"
  using run
proof (cases rule: commit_cases)
  case quiet
  then show ?thesis by (auto simp: honest_def kept_def list_all_iff filter_empty_conv)
next
  case (cleared p current d1 cmds)
  note k = cleared_kept [OF cleared(1)] and names = parse_cmds_names [OF cleared(2)]
  have len: "length cmds = length (q_commands q)" using names by (metis length_map)
  obtain head where h: "meta_get d1 ''head'' = Inr head"
    using cleared(3) by (cases "meta_get d1 ''head''") (auto simp: apply_cmds_def)
  let ?f = "\<lambda>wr c. apply_one X head c (q_push_id q) (q_principal q) now wr (barrier_active d) (both_scopes p current)"
  obtain d2 dry where dr: "apply_all (?f False) cmds d1 = (d2, dry)" by force
  then obtain ds where ds: "dry = Inr ds" using cleared(3) q(1) h by (cases dry) (auto simp: apply_cmds_def Let_def)
  then have d2: "d2 = d1" using dr apply_all_dry by blast
  show ?thesis
  proof (cases "list_ex (\<lambda>(_, r). r \<noteq> None) ds")
    case True
    then have "rs = map (\<lambda>(n, r). (n, case r of None \<Rightarrow> Some ''atomic push failed'' | Some w \<Rightarrow> Some w)) ds
        \<and> (d' = finish_push q PushRejected now rs d1 \<or> (\<exists>pk. d' = finish_push q PushRejected now rs (demote (barrier_active d) pk (q_push_id q) d1)))"
      using cleared(3) q(1) h dr ds d2 by (auto simp: apply_cmds_def Let_def split: option.splits)
    moreover from this have "kept d d'"
      using k kept_trans finish_push_kept demote_kept by blast
    ultimately show ?thesis by (auto simp: list_all_iff kept_def split: option.splits)
  next
    case False
    then have "list_all (\<lambda>(_, r). r = None) ds" by (auto simp: list_ex_iff list_all_iff)
    moreover from this obtain d3 where "apply_all (?f True) cmds d1 = (d3, Inr ds)"
      using apply_all_redo [OF dr [unfolded ds d2], of d1] q(2) fits k names len by (auto simp: kept_def)
    moreover from this have "settle X q cmds ds now d3 = (d', Inr rs)"
      using cleared(3) q(1) h dr ds False by (auto simp: apply_cmds_def Let_def)
    ultimately show ?thesis using settle_held by fastforce
  qed
qed

lemma demo_result: "\<exists>d'. commit_push demo_ext (\<lambda>_. None) 5 demo_req demo_db = (d', Inr [(''refs/heads/main'', None)])"
proof -
  have "\<not> events_on demo_ext" by (simp add: events_on_def demo_ext_def plain_ext_def)
  then show ?thesis unfolding demo_run by (simp add: settle_def record_push_event_def Let_def)
qed

theorem atomic_all_or_none_witness:
  "\<exists>rs. snd (commit_push demo_ext (\<lambda>_. None) 5 demo_req demo_db) = Inr rs
     \<and> (list_all (\<lambda>(_, r). r = None) rs \<or> list_all (\<lambda>(_, r). r \<noteq> None) rs)"
proof -
  obtain d' where "commit_push demo_ext (\<lambda>_. None) 5 demo_req demo_db = (d', Inr [(''refs/heads/main'', None)])"
    using demo_result by blast
  with atomic_all_or_none [OF this] show ?thesis by (auto simp: demo_req_def demo_db_def MAX_REFS_def)
qed

section \<open>Where all-or-nothing stops\<close>

lemma demo_moved_steady: "steady demo_db demo_moved"
proof -
  let ?d = "demo_db\<lparr>t_refs := [(''refs/heads/main'', \<lparr>r_target = ''b2'', r_peeled = None, r_updated_at = 5\<rparr>)]\<rparr>"
  have "steady demo_db ?d" by (simp add: steady_def meta_opt_def)
  then show ?thesis unfolding demo_moved_def using steady_trans log_ref_frame(1) by blast
qed

lemma demo_second:
  "apply_one demo_ext ''refs/heads/main'' demo_cmd ''p1'' ''dev'' 5 True False [Some ''refs/heads/*'', Some ''refs/heads/*''] demo_moved
     = (demo_moved, Inr (Some ''failed to update ref''))"
proof -
  have "refuse demo_ext ''refs/heads/main'' demo_cmd [Some ''refs/heads/*'', Some ''refs/heads/*''] demo_moved = Inr None"
    by (rule refuse_steady [OF demo_moved_steady demo_refuse]) (simp add: demo_moved_def MAX_REFS_def)
  moreover have "write_ref demo_ext demo_cmd 5 demo_moved = (demo_moved, 0)"
    by (simp add: write_ref_def demo_cmd_def demo_ext_def plain_ext_def) (simp add: demo_moved_def)
  ultimately show ?thesis by (simp add: apply_one_def Let_def)
qed

definition demo_twice :: commit_req where
  "demo_twice = demo_req\<lparr>q_commands := [demo_cmd, demo_cmd]\<rparr>"


end
