(* ===== verification/Housekeeping.thy ===== *)
theory Housekeeping
  imports Repo_Push
begin

text \<open>
  The janitor (\<open>server/src/jobs/janitor.rs\<close>) and the wipe at the end of a purge
  (\<open>server/src/jobs/purge.rs\<close>). Both await the object store between steps, so each synchronous span
  is one operation here: the span at the start of a janitor slice, the spans that follow a
  successful delete in the store, and the span at its end. What a \<open>SELECT .. LIMIT\<close> without an order
  returns is an argument, related to its candidates by \<open>selected\<close>; the store itself is not modelled.
\<close>

section \<open>The janitor\<close>

definition BATCH :: nat where "BATCH = 400"
definition GRACE_MS :: int where "GRACE_MS = 3600000"
definition PUSH_TIMEOUT_MS :: int where "PUSH_TIMEOUT_MS = 3600000"
definition REFLOG_KEEP_MS :: int where "REFLOG_KEEP_MS = 90 * 24 * 3600000"

definition selected :: "'a list \<Rightarrow> 'a list \<Rightarrow> bool" where
  "selected candidates rows \<longleftrightarrow> set rows \<subseteq> set candidates \<and> length rows = min BATCH (length candidates)"

text \<open>1. Open pushes past the timeout expire.\<close>

definition stale_pushes :: "int \<Rightarrow> db \<Rightarrow> string list" where
  "stale_pushes now d =
     map fst (filter (\<lambda>(_, p). p_state p = PushOpen \<and> p_began_at p < sat_i64 (now - PUSH_TIMEOUT_MS)) (t_pushes d))"

definition expire_push :: "int \<Rightarrow> string \<Rightarrow> db \<Rightarrow> db" where
  "expire_push now i d =
     d\<lparr>t_pushes := tbl_update (\<lambda>j p. j = i \<and> p_state p = PushOpen) (\<lambda>p. p\<lparr>p_state := PushExpired, p_ended_at := Some now\<rparr>) (t_pushes d)\<rparr>"

text \<open>2. Ingesting packs named by an expired or rejected push, then abandoned ones, lose their rows.\<close>

definition rejected_packs :: "db \<Rightarrow> string list" where
  "rejected_packs d =
     concat (map (\<lambda>(i, k). map (\<lambda>_. i) (filter (\<lambda>(_, u). p_pack_id u = Some i \<and> k_state k = Ingesting
         \<and> (p_state u = PushExpired \<or> p_state u = PushRejected)) (t_pushes d))) (t_packs d))"

definition push_open :: "db \<Rightarrow> string \<Rightarrow> bool" where
  "push_open d i \<longleftrightarrow> (\<exists>(j, u) \<in> set (t_pushes d). j = i \<and> p_state u = PushOpen)"

definition orphaned_packs :: "int \<Rightarrow> db \<Rightarrow> string list" where
  "orphaned_packs now d =
     map fst (filter (\<lambda>(_, k). k_state k = Ingesting \<and> k_created_at k < sat_i64 (now - PUSH_TIMEOUT_MS)
         \<and> (case k_push_id k of None \<Rightarrow> False | Some i \<Rightarrow> \<not> push_open d i)) (t_packs d))"

definition reap_pack :: "int \<Rightarrow> string \<Rightarrow> db \<Rightarrow> db" where
  "reap_pack now i d =
     d\<lparr>t_objects := tbl_delete (\<lambda>(_, p) _. p = i) (t_objects d),
       t_packs := tbl_update (\<lambda>j k. j = i \<and> k_state k = Ingesting) (\<lambda>k. k\<lparr>k_state := Dead, k_dead_at := Some now\<rparr>) (t_packs d)\<rparr>"

definition janitor_sweep :: "int \<Rightarrow> string list \<Rightarrow> string list \<Rightarrow> string list \<Rightarrow> db \<Rightarrow> db" where
  "janitor_sweep now stale rejected orphaned d =
     fold (reap_pack now) orphaned (fold (reap_pack now) rejected (fold (expire_push now) stale d))"

text \<open>What the three selections of a sweep may return.\<close>

definition sweep_reads :: "int \<Rightarrow> string list \<Rightarrow> string list \<Rightarrow> string list \<Rightarrow> db \<Rightarrow> bool" where
  "sweep_reads now stale rejected orphaned d \<longleftrightarrow>
     (let d1 = fold (expire_push now) stale d; d2 = fold (reap_pack now) rejected d1
      in selected (stale_pushes now d) stale \<and> selected (rejected_packs d1) rejected \<and> selected (orphaned_packs now d2) orphaned)"

text \<open>3. After the store has deleted a push's staged parts, or a dead pack, the row says so.\<close>

definition pending_pushes :: "int \<Rightarrow> db \<Rightarrow> string list" where
  "pending_pushes now d =
     map fst (take BATCH (sort_key (\<lambda>(_, p). p_began_at p)
       (filter (\<lambda>(_, p). p_state p \<noteq> PushOpen \<and> p_began_at p < sat_i64 (now - GRACE_MS) \<and> p_swept_at p = None) (t_pushes d))))"

definition janitor_swept :: "int \<Rightarrow> string \<Rightarrow> db \<Rightarrow> db" where
  "janitor_swept now i d = d\<lparr>t_pushes := tbl_update (\<lambda>j _. j = i) (\<lambda>p. p\<lparr>p_swept_at := Some now\<rparr>) (t_pushes d)\<rparr>"

definition dead_packs :: "int \<Rightarrow> db \<Rightarrow> string list" where
  "dead_packs now d =
     map fst (take BATCH (sort_key (\<lambda>(_, k). case k_dead_at k of Some t \<Rightarrow> t | None \<Rightarrow> 0)
       (filter (\<lambda>(i, k). k_state k = Dead \<and> (case k_dead_at k of None \<Rightarrow> False | Some t \<Rightarrow> t < sat_i64 (now - GRACE_MS))
           \<and> tbl_count (\<lambda>(_, p) _. p = i) (t_objects d) = 0) (t_packs d))))"

definition janitor_drop_pack :: "string \<Rightarrow> db \<Rightarrow> db" where
  "janitor_drop_pack i d = d\<lparr>t_packs := tbl_del i (t_packs d)\<rparr>"

definition dead_imports :: "db \<Rightarrow> int list" where
  "dead_imports d = map fst (filter (\<lambda>(i, r). dead_of ''import_pack'' i r) (t_jobs d))"

definition janitor_drop_job :: "int \<Rightarrow> db \<Rightarrow> db" where
  "janitor_drop_job i d = d\<lparr>t_jobs := tbl_del i (t_jobs d)\<rparr>"

text \<open>4. Reflog rows older than 90 days go, by row; then the compaction trigger runs.\<close>

definition old_rows :: "int \<Rightarrow> db \<Rightarrow> nat list" where
  "old_rows now d = filter (\<lambda>i. l_at (t_reflog d ! i) < sat_i64 (now - REFLOG_KEEP_MS)) [0..<length (t_reflog d)]"

definition janitor_finish :: "ext \<Rightarrow> (string \<Rightarrow> (string \<times> int) list option) \<Rightarrow> int \<Rightarrow> nat list \<Rightarrow> db \<Rightarrow> db" where
  "janitor_finish X strikes now rows d =
     trigger X strikes now (d\<lparr>t_reflog := nths (t_reflog d) (- set rows)\<rparr>)"

section \<open>The wipe of a purge\<close>

text \<open>
  The last span of \<open>purge_repo\<close>, fenced by a heartbeat: every row but this job's own. What follows
  drops the rest of the storage, this row included, and the counters with it.
\<close>

definition wipe_rows :: "job \<Rightarrow> db \<Rightarrow> db" where
  "wipe_rows job d = empty_db\<lparr>t_jobs := filter (\<lambda>(i, _). i = jb_id job) (t_jobs d), jobs_seq := jobs_seq d, events_seq := events_seq d\<rparr>"

definition wipe :: "int \<Rightarrow> job \<Rightarrow> db \<Rightarrow> db \<times> slice_outcome res" where
  "wipe now job d =
     (case heartbeat now job d of
        (d1, False) \<Rightarrow> (d1, Inl (Internal ''stale job lease''))
      | (d1, True) \<Rightarrow> (wipe_rows job d1, Inr Done))"

definition delete_all :: "db \<Rightarrow> db" where
  "delete_all d = empty_db"

end
