(* ===== verification/Repo_Invariants.thy ===== *)
theory Repo_Invariants
  imports Commit_Claims Housekeeping "HOL-Library.Sublist"
begin

text \<open>
  What every operation of a repository object keeps. \<open>repo_ok\<close> is the well-formedness of the
  database: keys are unique, the bounds the code promises hold, open pushes carry a scope, job rows
  are sound. \<open>request_op\<close> is the contract of an operation that is not a commit: the refs stay, no
  object a reader finds is lost, a new pin names the value its ref has. It is interpreted here for
  every such handler, job operation and janitor span.
\<close>

section \<open>Well-formed databases\<close>

definition keys_ok :: "db \<Rightarrow> bool" where
  "keys_ok d \<longleftrightarrow> tbl_ok (t_meta d) \<and> tbl_ok (t_refs d) \<and> tbl_ok (t_pushes d) \<and> tbl_ok (t_packs d) \<and> tbl_ok (t_objects d)
     \<and> tbl_ok (t_tokens d) \<and> tbl_ok (t_pins d) \<and> tbl_ok (t_protected d)"

definition limits_ok :: "db \<Rightarrow> bool" where
  "limits_ok d \<longleftrightarrow> length (t_tokens d) \<le> 256 \<and> length (t_pins d) \<le> 256 \<and> length (t_protected d) \<le> 64
     \<and> open_pushes d \<le> 64 \<and> length (t_refs d) \<le> MAX_REFS \<and> int (length (t_push_events d)) \<le> MAX_PENDING"

text \<open>An open push has a scope that is not blank and the credential that opened it.\<close>

definition scopes_ok :: "db \<Rightarrow> bool" where
  "scopes_ok d \<longleftrightarrow> (\<forall>i p. (i, p) \<in> set (t_pushes d) \<longrightarrow> p_state p = PushOpen \<longrightarrow> trimmed (p_scope p) \<noteq> None \<and> p_auth p \<noteq> None)"

definition repo_ok :: "db \<Rightarrow> bool" where
  "repo_ok d \<longleftrightarrow> keys_ok d \<and> limits_ok d \<and> scopes_ok d \<and> jobs_ok d"

lemma repo_ok_empty: "repo_ok empty_db"
  by (simp add: repo_ok_def keys_ok_def limits_ok_def scopes_ok_def jobs_ok_def empty_db_def open_pushes_def tbl_count_def MAX_PENDING_def)

text \<open>The tables of \<open>repo_ok\<close> other than jobs and meta, for operations that leave them alone.\<close>

definition same_rows :: "db \<Rightarrow> db \<Rightarrow> bool" where
  "same_rows d d' \<longleftrightarrow> t_refs d' = t_refs d \<and> t_reflog d' = t_reflog d \<and> t_pushes d' = t_pushes d \<and> t_packs d' = t_packs d
     \<and> t_objects d' = t_objects d \<and> t_tokens d' = t_tokens d \<and> t_pins d' = t_pins d \<and> t_protected d' = t_protected d
     \<and> t_push_events d' = t_push_events d"

lemma same_rows_refl [simp]: "same_rows d d"
  by (simp add: same_rows_def)

lemma same_rows_trans: "same_rows d e \<Longrightarrow> same_rows e f \<Longrightarrow> same_rows d f"
  by (simp add: same_rows_def)

lemma same_rows_repo_ok: "same_rows d d' \<Longrightarrow> tbl_ok (t_meta d') \<Longrightarrow> jobs_ok d' \<Longrightarrow> repo_ok d \<Longrightarrow> repo_ok d'"
  by (simp add: same_rows_def repo_ok_def keys_ok_def limits_ok_def scopes_ok_def open_pushes_def)

lemma same_repo_rows: "same_repo d d' \<Longrightarrow> same_rows d d'"
  by (cases d; cases d') (simp add: same_repo_def same_rows_def)

lemma same_rows_meta [simp]:
  "same_rows d (meta_put k v d)" "same_rows d (meta_put_new k v d)" "same_rows d (meta_del k d)" "same_rows d (meta_bump k d)"
  by (simp_all add: same_rows_def meta_put_def meta_put_new_def meta_del_def meta_bump_def split: option.splits)

lemma meta_ok_ops [simp]:
  "tbl_ok (t_meta d) \<Longrightarrow> tbl_ok (t_meta (meta_put k v d))" "tbl_ok (t_meta d) \<Longrightarrow> tbl_ok (t_meta (meta_put_new k v d))"
  "tbl_ok (t_meta d) \<Longrightarrow> tbl_ok (t_meta (meta_del k d))" "tbl_ok (t_meta d) \<Longrightarrow> tbl_ok (t_meta (meta_bump k d))"
  by (auto simp: meta_put_def meta_put_new_def meta_del_def meta_bump_def split: option.splits)

lemma jobs_ok_meta [simp]:
  "jobs_ok (meta_put_new k v d) \<longleftrightarrow> jobs_ok d" "jobs_ok (meta_del k d) \<longleftrightarrow> jobs_ok d" "jobs_ok (meta_bump k d) \<longleftrightarrow> jobs_ok d"
  by (simp_all add: jobs_ok_def)

lemma enqueue_meta [simp]: "t_meta (enqueue k t p d) = t_meta d"
  by (simp add: enqueue_def insert_job_def)

lemma enqueue_meta_opt [simp]: "meta_opt (enqueue k t p d) j = meta_opt d j"
  by (simp add: meta_opt_def)

lemma enqueue_rows [simp]: "same_rows d (enqueue k t p d)"
  by (rule same_repo_rows) simp

lemma same_rows_live: "same_rows d d' \<Longrightarrow> obj_live d' s = obj_live d s"
  by (intro obj_live_cong) (simp_all add: same_rows_def)

lemma same_rows_pin: "same_rows d d' \<Longrightarrow> pin_sha d' n = pin_sha d n"
  by (simp add: same_rows_def pin_sha_def)

section \<open>The contract of an operation that is not a commit\<close>

locale request_op =
  fixes h :: "'a \<Rightarrow> db \<Rightarrow> db" and ok :: "'a \<Rightarrow> db \<Rightarrow> bool"
  assumes refs: "ok a d \<Longrightarrow> t_refs (h a d) = t_refs d \<and> subseq (t_reflog (h a d)) (t_reflog d)"
    and head: "ok a d \<Longrightarrow> k = ''refs_version'' \<or> k = ''head'' \<Longrightarrow> meta_opt d k = Some v \<Longrightarrow> meta_opt (h a d) k = Some v"
    and live: "ok a d \<Longrightarrow> repo_ok d \<Longrightarrow> obj_live d s \<Longrightarrow> obj_live (h a d) s"
    and pins: "ok a d \<Longrightarrow> pin_sha (h a d) n = Some s \<Longrightarrow> pin_sha d n = Some s \<or> ref_map d n = Some s"
    and keeps: "ok a d \<Longrightarrow> repo_ok d \<Longrightarrow> repo_ok (h a d)"

text \<open>What holds of a repository at every moment: the refs are the replay of the history of landed rows.\<close>

definition git_ok :: "ext \<Rightarrow> reflog_row list \<Rightarrow> db \<Rightarrow> bool" where
  "git_ok X hist d \<longleftrightarrow> repo_ok d \<and> journal X hist (\<lambda>_. None) \<and> ref_map d = replay X hist (\<lambda>_. None) \<and> subseq (t_reflog d) hist
     \<and> (\<forall>n s. pin_sha d n = Some s \<longrightarrow> ref_map d n = Some s)
     \<and> (\<forall>n t. ref_map d n = Some t \<longrightarrow> obj_live d t)"

text \<open>One run of such an operation; the runs compose.\<close>

definition sound_step :: "db \<Rightarrow> db \<Rightarrow> bool" where
  "sound_step d d' \<longleftrightarrow> t_refs d' = t_refs d \<and> subseq (t_reflog d') (t_reflog d)
     \<and> (\<forall>k v. k = ''refs_version'' \<or> k = ''head'' \<longrightarrow> meta_opt d k = Some v \<longrightarrow> meta_opt d' k = Some v)
     \<and> (repo_ok d \<longrightarrow> repo_ok d' \<and> (\<forall>s. obj_live d s \<longrightarrow> obj_live d' s))
     \<and> (\<forall>n s. pin_sha d' n = Some s \<longrightarrow> pin_sha d n = Some s \<or> ref_map d n = Some s)"

lemma sound_step_refl [simp]: "sound_step d d"
  by (simp add: sound_step_def)

lemma sound_step_trans:
  assumes "sound_step d e" and "sound_step e f"
  shows "sound_step d f"
proof -
  have "ref_map e = ref_map d" using assms(1) by (intro ref_map_cong) (simp add: sound_step_def)
  moreover have "pin_sha f n = Some s \<Longrightarrow> pin_sha e n = Some s \<or> ref_map e n = Some s" for n s
    using assms(2) unfolding sound_step_def by blast
  moreover have "pin_sha e n = Some s \<Longrightarrow> pin_sha d n = Some s \<or> ref_map d n = Some s" for n s
    using assms(1) unfolding sound_step_def by blast
  ultimately have "pin_sha f n = Some s \<Longrightarrow> pin_sha d n = Some s \<or> ref_map d n = Some s" for n s
    by metis
  moreover have "subseq (t_reflog f) (t_reflog d)"
    using assms subseq_order.trans [of "t_reflog f" "t_reflog e" "t_reflog d"] by (simp add: sound_step_def)
  ultimately show ?thesis using assms by (simp add: sound_step_def)
qed

lemma request_opI: "(\<And>a d. ok a d \<Longrightarrow> sound_step d (h a d)) \<Longrightarrow> request_op h ok"
  by unfold_locales (auto simp: sound_step_def)

context request_op
begin

lemma sound: "ok a d \<Longrightarrow> sound_step d (h a d)"
  unfolding sound_step_def
  by (intro conjI allI impI refs [THEN conjunct1] refs [THEN conjunct2] head live pins keeps)

lemma ref_map_kept: "ok a d \<Longrightarrow> ref_map (h a d) = ref_map d"
  using refs by (intro ref_map_cong) blast

lemma keeps_git_ok:
  assumes "ok a d" and "git_ok X hist d"
  shows "git_ok X hist (h a d)"
proof -
  note m = ref_map_kept [OF assms(1)]
  have "subseq (t_reflog (h a d)) hist"
    using refs [OF assms(1)] assms(2) subseq_order.trans by (auto simp: git_ok_def)
  moreover have "\<forall>n s. pin_sha (h a d) n = Some s \<longrightarrow> ref_map d n = Some s"
    using pins [OF assms(1)] assms(2) unfolding git_ok_def by blast
  moreover have "\<forall>n t. ref_map d n = Some t \<longrightarrow> obj_live (h a d) t"
    using live [OF assms(1)] assms(2) by (auto simp: git_ok_def)
  ultimately show ?thesis using keeps [OF assms(1)] assms(2) m by (simp add: git_ok_def)
qed

end

text \<open>Operations on jobs and meta rows only.\<close>

lemma rows_request_op:
  assumes "\<And>a d. same_rows d (h a d)" "\<And>a d. tbl_ok (t_meta d) \<Longrightarrow> tbl_ok (t_meta (h a d))" "\<And>a d. jobs_ok d \<Longrightarrow> jobs_ok (h a d)"
    "\<And>a d k v. k = ''refs_version'' \<or> k = ''head'' \<Longrightarrow> meta_opt d k = Some v \<Longrightarrow> meta_opt (h a d) k = Some v"
  shows "request_op h (\<lambda>_ _. True)"
proof
  fix a d s n k v
  show "t_refs (h a d) = t_refs d \<and> subseq (t_reflog (h a d)) (t_reflog d)" using assms(1) [of d a] by (simp add: same_rows_def)
  show "obj_live d s \<Longrightarrow> obj_live (h a d) s" using same_rows_live [OF assms(1)] by simp
  show "pin_sha (h a d) n = Some s \<Longrightarrow> pin_sha d n = Some s \<or> ref_map d n = Some s" using same_rows_pin [OF assms(1)] by simp
  show "repo_ok d \<Longrightarrow> repo_ok (h a d)"
    using same_rows_repo_ok [OF assms(1) assms(2) assms(3)] by (simp add: repo_ok_def keys_ok_def)
qed (use assms(4) in auto)

section \<open>Job operations, meta rows and boot\<close>

interpretation delq: request_op "\<lambda>now d. delete_repo now d" "\<lambda>_ _. True"
proof (rule rows_request_op)
  show "same_rows d (delete_repo now d)" for now d
    unfolding delete_repo_def by (rule same_rows_trans [OF same_rows_meta(1) enqueue_rows])
qed (auto simp: delete_repo_def intro: enqueue_keeps)

interpretation pubq: request_op "\<lambda>enabled d. fst (set_public enabled d)" "\<lambda>_ _. True"
  by (rule rows_request_op) (auto simp: set_public_def Let_def split: option.splits bool.splits)

lemma pin_obj_format_rows: "same_rows d (fst (pin_obj_format k d))"
  by (simp add: pin_obj_format_def Let_def)

lemma pin_obj_format_meta:
  "tbl_ok (t_meta d) \<Longrightarrow> tbl_ok (t_meta (fst (pin_obj_format k d)))" "jobs_ok (fst (pin_obj_format k d)) \<longleftrightarrow> jobs_ok d"
  "j \<noteq> ''obj_format'' \<Longrightarrow> meta_opt (fst (pin_obj_format k d)) j = meta_opt d j"
  by (simp_all add: pin_obj_format_def Let_def)

lemma set_format_fst:
  "fst (set_format f d) = d \<or> (\<exists>k. fst (set_format f d) = fst (pin_obj_format k d))"
proof (cases "parse_kind f")
  case (Inr k)
  show ?thesis
  proof (cases k)
    case (Some a)
    with Inr have "fst (set_format f d) = fst (pin_obj_format a d)" by (simp add: set_format_def split: prod.splits sum.splits)
    then show ?thesis by blast
  qed (simp add: set_format_def Inr)
qed (simp add: set_format_def)

interpretation fmtq: request_op "\<lambda>f d. fst (set_format f d)" "\<lambda>_ _. True"
proof (rule rows_request_op)
  fix f d k v
  consider "fst (set_format f d) = d" | k where "fst (set_format f d) = fst (pin_obj_format k d)" using set_format_fst by blast
  note c = this
  show "same_rows d (fst (set_format f d))" using c by cases (simp_all add: pin_obj_format_rows)
  show "tbl_ok (t_meta d) \<Longrightarrow> tbl_ok (t_meta (fst (set_format f d)))" using c by cases (simp_all add: pin_obj_format_meta)
  show "jobs_ok d \<Longrightarrow> jobs_ok (fst (set_format f d))" using c by cases (simp_all add: pin_obj_format_meta)
  show "k = ''refs_version'' \<or> k = ''head'' \<Longrightarrow> meta_opt d k = Some v \<Longrightarrow> meta_opt (fst (set_format f d)) k = Some v"
    using c by cases (auto simp: pin_obj_format_meta)
qed

text \<open>Every operation of the queue is one of these.\<close>

lemma queue_request_op:
  assumes "queue_op h" and "\<And>a d. tbl_ok (t_meta d) \<Longrightarrow> tbl_ok (t_meta (h a d))"
  shows "request_op h (\<lambda>_ _. True)"
proof -
  have "core_meta ''refs_version''" "core_meta ''head''" by code_simp+
  then show ?thesis
    using queue_op.keeps [OF assms(1)] queue_op.frame [OF assms(1)] assms(2)
    by (intro rows_request_op) (auto intro: same_repo_rows simp: same_repo_def)
qed

lemma queue_meta:
  "t_meta (fst (heartbeat now job d)) = t_meta d" "t_meta (fst (claim now lease p d)) = t_meta d"
  "t_meta (fst (land_outcome X job now out d)) = t_meta d" "t_meta (trigger X strikes now d) = t_meta d"
  by (auto simp: heartbeat_def claim_def land_outcome_def fenced_update_def janitor_done_def trigger_def Let_def
      split: option.splits prod.splits sum.splits slice_outcome.splits)

interpretation hbr: request_op "\<lambda>(now, job) d. fst (heartbeat now job d)" "\<lambda>_ _. True"
  by (rule queue_request_op [OF hbq.queue_op_axioms]) (auto simp: queue_meta)

interpretation claimr: request_op "\<lambda>(now, lease, p) d. fst (claim now lease p d)" "\<lambda>_ _. True"
  by (rule queue_request_op [OF claimq.queue_op_axioms]) (auto simp: queue_meta)

interpretation landr: request_op "\<lambda>(X, job, now, out) d. fst (land_outcome X job now out d)" "\<lambda>_ _. True"
  by (rule queue_request_op [OF landq.queue_op_axioms]) (auto simp: queue_meta)

interpretation trigr: request_op "\<lambda>(X, parse, now) d. trigger X parse now d" "\<lambda>_ _. True"
  by (rule queue_request_op [OF trig.queue_op_axioms]) (auto simp: queue_meta)

lemma repair_meta: "tbl_ok (t_meta d) \<Longrightarrow> tbl_ok (t_meta (repair now d))"
proof -
  have k: "tbl_ok (t_meta d) \<Longrightarrow> tbl_ok (t_meta (repair_kind now kind d))" for kind d
    by (auto simp: repair_kind_def Let_def split: option.splits)
  have "tbl_ok (t_meta d) \<Longrightarrow> tbl_ok (t_meta (fold (repair_kind now) ks d))" for ks d
    by (induction ks arbitrary: d) (simp_all add: k)
  moreover have "t_meta (repair_janitor now (repair_strands now d)) = t_meta d"
    by (simp add: repair_janitor_def repair_strands_def Let_def)
  ultimately show "tbl_ok (t_meta d) \<Longrightarrow> tbl_ok (t_meta (repair now d))" unfolding repair_def by metis
qed

interpretation repr: request_op repair "\<lambda>_ _. True"
  by (rule queue_request_op [OF rep.queue_op_axioms]) (auto simp: repair_meta)

section \<open>Tokens, pins and protected patterns\<close>

lemma repo_ok_tokens:
  "repo_ok d \<Longrightarrow> tbl_ok t \<Longrightarrow> length t \<le> 256 \<Longrightarrow> repo_ok (d\<lparr>t_tokens := t\<rparr>)"
  by (simp add: repo_ok_def keys_ok_def limits_ok_def scopes_ok_def open_pushes_def jobs_ok_def)

lemma repo_ok_pins: "repo_ok d \<Longrightarrow> tbl_ok t \<Longrightarrow> length t \<le> 256 \<Longrightarrow> repo_ok (d\<lparr>t_pins := t\<rparr>)"
  by (simp add: repo_ok_def keys_ok_def limits_ok_def scopes_ok_def open_pushes_def jobs_ok_def)

lemma repo_ok_protected: "repo_ok d \<Longrightarrow> tbl_ok t \<Longrightarrow> length t \<le> 64 \<Longrightarrow> repo_ok (d\<lparr>t_protected := t\<rparr>)"
  by (simp add: repo_ok_def keys_ok_def limits_ok_def scopes_ok_def open_pushes_def jobs_ok_def)

lemma repo_okD: "repo_ok d \<Longrightarrow> tbl_ok (t_tokens d) \<and> tbl_ok (t_pins d) \<and> tbl_ok (t_protected d) \<and> tbl_ok (t_packs d) \<and> tbl_ok (t_pushes d)
    \<and> length (t_tokens d) \<le> 256 \<and> length (t_pins d) \<le> 256 \<and> length (t_protected d) \<le> 64"
  by (simp add: repo_ok_def keys_ok_def limits_ok_def)

lemma table_simps [simp]:
  "obj_live (d\<lparr>t_tokens := t\<rparr>) s = obj_live d s" "obj_live (d\<lparr>t_pins := p\<rparr>) s = obj_live d s"
  "obj_live (d\<lparr>t_protected := q\<rparr>) s = obj_live d s" "obj_live (d\<lparr>t_pushes := u\<rparr>) s = obj_live d s"
  "meta_opt (d\<lparr>t_tokens := t\<rparr>) k = meta_opt d k" "meta_opt (d\<lparr>t_pins := p\<rparr>) k = meta_opt d k"
  "meta_opt (d\<lparr>t_protected := q\<rparr>) k = meta_opt d k" "meta_opt (d\<lparr>t_pushes := u\<rparr>) k = meta_opt d k"
  "pin_sha (d\<lparr>t_tokens := t\<rparr>) n = pin_sha d n" "pin_sha (d\<lparr>t_protected := q\<rparr>) n = pin_sha d n"
  "pin_sha (d\<lparr>t_pushes := u\<rparr>) n = pin_sha d n"
  by (simp_all add: obj_live_def live_rows_def pack_live_def meta_opt_def pin_sha_def)

text \<open>Operations on one of these tables.\<close>

lemma tokens_request_op:
  assumes "\<And>a d. h a d = d\<lparr>t_tokens := t_tokens (h a d)\<rparr>"
    "\<And>a d. ok a d \<Longrightarrow> tbl_ok (t_tokens d) \<Longrightarrow> length (t_tokens d) \<le> 256 \<Longrightarrow> tbl_ok (t_tokens (h a d)) \<and> length (t_tokens (h a d)) \<le> 256"
  shows "request_op h ok"
proof
  fix a d k v s n
  have e: "P (d\<lparr>t_tokens := t_tokens (h a d)\<rparr>) \<Longrightarrow> P (h a d)" for P using assms(1) [of a d] by metis
  show "t_refs (h a d) = t_refs d \<and> subseq (t_reflog (h a d)) (t_reflog d)" by (rule e) simp
  show "meta_opt d k = Some v \<Longrightarrow> meta_opt (h a d) k = Some v" by (rule e) simp
  show "obj_live d s \<Longrightarrow> obj_live (h a d) s" by (rule e) simp
  have "pin_sha (h a d) n = pin_sha d n" by (rule e) simp
  then show "pin_sha (h a d) n = Some s \<Longrightarrow> pin_sha d n = Some s \<or> ref_map d n = Some s" by simp
  show "ok a d \<Longrightarrow> repo_ok d \<Longrightarrow> repo_ok (h a d)"
    by (rule e) (use assms(2) [of a d] repo_okD [of d] repo_ok_tokens in blast)
qed

lemma protected_request_op:
  assumes "\<And>a d. h a d = d\<lparr>t_protected := t_protected (h a d)\<rparr>"
    "\<And>a d. tbl_ok (t_protected d) \<Longrightarrow> length (t_protected d) \<le> 64 \<Longrightarrow> tbl_ok (t_protected (h a d)) \<and> length (t_protected (h a d)) \<le> 64"
  shows "request_op h (\<lambda>_ _. True)"
proof
  fix a d k v s n
  have e: "P (d\<lparr>t_protected := t_protected (h a d)\<rparr>) \<Longrightarrow> P (h a d)" for P using assms(1) [of a d] by metis
  show "t_refs (h a d) = t_refs d \<and> subseq (t_reflog (h a d)) (t_reflog d)" by (rule e) simp
  show "meta_opt d k = Some v \<Longrightarrow> meta_opt (h a d) k = Some v" by (rule e) simp
  show "obj_live d s \<Longrightarrow> obj_live (h a d) s" by (rule e) simp
  have "pin_sha (h a d) n = pin_sha d n" by (rule e) simp
  then show "pin_sha (h a d) n = Some s \<Longrightarrow> pin_sha d n = Some s \<or> ref_map d n = Some s" by simp
  show "repo_ok d \<Longrightarrow> repo_ok (h a d)"
    by (rule e) (use assms(2) [of d a] repo_okD [of d] repo_ok_protected in blast)
qed

lemma pins_request_op:
  assumes "\<And>a d. h a d = d\<lparr>t_pins := t_pins (h a d)\<rparr>"
    "\<And>a d. tbl_ok (t_pins d) \<Longrightarrow> length (t_pins d) \<le> 256 \<Longrightarrow> tbl_ok (t_pins (h a d)) \<and> length (t_pins (h a d)) \<le> 256"
    "\<And>a d n s. pin_sha (h a d) n = Some s \<Longrightarrow> pin_sha d n = Some s \<or> ref_map d n = Some s"
  shows "request_op h (\<lambda>_ _. True)"
proof
  fix a d k v s n
  have e: "P (d\<lparr>t_pins := t_pins (h a d)\<rparr>) \<Longrightarrow> P (h a d)" for P using assms(1) [of a d] by metis
  show "t_refs (h a d) = t_refs d \<and> subseq (t_reflog (h a d)) (t_reflog d)" by (rule e) simp
  show "meta_opt d k = Some v \<Longrightarrow> meta_opt (h a d) k = Some v" by (rule e) simp
  show "obj_live d s \<Longrightarrow> obj_live (h a d) s" by (rule e) simp
  show "repo_ok d \<Longrightarrow> repo_ok (h a d)"
    by (rule e) (use assms(2) [of d a] repo_okD [of d] repo_ok_pins in blast)
qed (use assms(3) in blast)

text \<open>Identifiers of tokens are fresh random numbers; the primary key refuses a repeated one.\<close>

interpretation mintr: request_op "\<lambda>(X, now, secret, tid, hash, b) d. fst (token_create X now secret tid hash b d)"
    "\<lambda>(X, now, secret, tid, hash, b) d. map_of (t_tokens d) tid = None"
  by (rule tokens_request_op)
     (auto simp: token_create_def Let_def tbl_ok_def map_of_eq_None_iff split: sum.splits)

interpretation revoker: request_op "\<lambda>tid d. fst (token_revoke tid d)" "\<lambda>_ _. True"
  by (rule tokens_request_op) (auto simp: token_revoke_def length_tbl_del_le)

interpretation protr: request_op "\<lambda>(X, now, p) d. fst (protect X now p d)" "\<lambda>_ _. True"
  by (rule protected_request_op) (auto simp: protect_def Let_def length_tbl_put_count)

interpretation unprotr: request_op "\<lambda>p d. fst (unprotect p d)" "\<lambda>_ _. True"
  by (rule protected_request_op) (auto simp: unprotect_def length_tbl_del_le)

interpretation pinr: request_op "\<lambda>(X, now, ref, sha) d. fst (pin X now ref sha d)" "\<lambda>_ _. True"
  by (rule pins_request_op)
     (auto simp: pin_def length_tbl_put_count pin_sha_def ref_map_def split: sum.splits if_splits option.splits)

interpretation unpinr: request_op "\<lambda>(X, ref) d. fst (unpin X ref d)" "\<lambda>_ _. True"
  by (rule pins_request_op) (auto simp: unpin_def length_tbl_del_le pin_sha_def split: sum.splits if_splits)

section \<open>Pushes\<close>

lemma repo_ok_pushes:
  "repo_ok d \<Longrightarrow> tbl_ok t \<Longrightarrow> tbl_count (\<lambda>_ p. p_state p = PushOpen) t \<le> 64
    \<Longrightarrow> (\<And>i p. (i, p) \<in> set t \<Longrightarrow> p_state p = PushOpen \<Longrightarrow> trimmed (p_scope p) \<noteq> None \<and> p_auth p \<noteq> None)
    \<Longrightarrow> repo_ok (d\<lparr>t_pushes := t\<rparr>)"
  by (simp add: repo_ok_def keys_ok_def limits_ok_def scopes_ok_def open_pushes_def jobs_ok_def)

text \<open>Updates of push rows that never open one.\<close>

lemma repo_ok_close:
  assumes ok: "repo_ok d" and f: "\<And>p. p_state (f p) = PushOpen \<Longrightarrow> p_state p = PushOpen \<and> p_scope (f p) = p_scope p \<and> p_auth (f p) = p_auth p"
  shows "repo_ok (d\<lparr>t_pushes := tbl_update P f (t_pushes d)\<rparr>)"
proof (rule repo_ok_pushes [OF ok])
  show "tbl_ok (tbl_update P f (t_pushes d))" using repo_okD [OF ok] by simp
  have "tbl_count (\<lambda>_ p. p_state p = PushOpen) (tbl_update P f t) \<le> tbl_count (\<lambda>_ p. p_state p = PushOpen) t" for t
    using f by (induction t) (auto simp: tbl_update_def tbl_count_def split: if_splits)
  then show "tbl_count (\<lambda>_ p. p_state p = PushOpen) (tbl_update P f (t_pushes d)) \<le> 64"
    using ok le_trans by (fastforce simp: repo_ok_def limits_ok_def open_pushes_def)
  show "\<And>i p. (i, p) \<in> set (tbl_update P f (t_pushes d)) \<Longrightarrow> p_state p = PushOpen \<Longrightarrow> trimmed (p_scope p) \<noteq> None \<and> p_auth p \<noteq> None"
    using ok f by (auto simp: set_tbl_update repo_ok_def scopes_ok_def split: if_splits)
qed

definition closes :: "(push_row \<Rightarrow> push_row) \<Rightarrow> bool" where
  "closes f \<longleftrightarrow> (\<forall>p. p_state (f p) = PushOpen \<longrightarrow> p_state p = PushOpen \<and> p_scope (f p) = p_scope p \<and> p_auth (f p) = p_auth p)"

lemma pushes_request_op:
  assumes "\<And>a d. \<exists>P f. closes f \<and> h a d = d\<lparr>t_pushes := tbl_update P f (t_pushes d)\<rparr>"
  shows "request_op h (\<lambda>_ _. True)"
proof
  fix a d k v s n
  obtain P f where f: "closes f" and e: "h a d = d\<lparr>t_pushes := tbl_update P f (t_pushes d)\<rparr>"
    using assms by blast
  show "repo_ok d \<Longrightarrow> repo_ok (h a d)" unfolding e using repo_ok_close [of d f P] f by (auto simp: closes_def)
  show "t_refs (h a d) = t_refs d \<and> subseq (t_reflog (h a d)) (t_reflog d)" unfolding e by simp
  show "meta_opt d k = Some v \<Longrightarrow> meta_opt (h a d) k = Some v" unfolding e by simp
  show "obj_live d s \<Longrightarrow> obj_live (h a d) s" unfolding e by simp
  show "pin_sha (h a d) n = Some s \<Longrightarrow> pin_sha d n = Some s \<or> ref_map d n = Some s" unfolding e by simp
qed

interpretation abortr: request_op "\<lambda>i d. fst (push_abort i d)" "\<lambda>_ _. True"
proof (rule pushes_request_op)
  fix i and d :: db
  have "d = d\<lparr>t_pushes := tbl_update (\<lambda>_ _. False) (\<lambda>p. p) (t_pushes d)\<rparr>" by (simp add: tbl_update_def)
  moreover have "closes (\<lambda>p. p\<lparr>p_state := PushDead\<rparr>)" "closes (\<lambda>p. p)" by (simp_all add: closes_def)
  ultimately show "\<exists>P f. closes f \<and> fst (push_abort i d) = d\<lparr>t_pushes := tbl_update P f (t_pushes d)\<rparr>"
    by (cases i) (auto simp: push_abort_def)
qed

interpretation sweptr: request_op "\<lambda>(now, i) d. janitor_swept now i d" "\<lambda>_ _. True"
proof (rule pushes_request_op)
  fix a and d :: db
  have "closes (\<lambda>p. p\<lparr>p_swept_at := Some now\<rparr>)" for now by (simp add: closes_def)
  then show "\<exists>P f. closes f \<and> (case a of (now, i) \<Rightarrow> janitor_swept now i) d = d\<lparr>t_pushes := tbl_update P f (t_pushes d)\<rparr>"
    by (cases a) (auto simp: janitor_swept_def)
qed

text \<open>Opening a push.\<close>

lemma rate_check_sound: "sound_step d (fst (rate_check X now key d))"
proof -
  have "sound_step d (d\<lparr>t_rate := r\<rparr>)" for r
    by (simp add: sound_step_def meta_opt_def pin_sha_def obj_live_def live_rows_def pack_live_def
        repo_ok_def keys_ok_def limits_ok_def scopes_ok_def open_pushes_def jobs_ok_def)
  then show ?thesis by (simp add: rate_check_def Let_def)
qed

lemma same_rows_sound:
  assumes "same_rows d d'" "tbl_ok (t_meta d) \<Longrightarrow> tbl_ok (t_meta d')" "jobs_ok d \<Longrightarrow> jobs_ok d'"
    "\<And>k v. k = ''refs_version'' \<or> k = ''head'' \<Longrightarrow> meta_opt d k = Some v \<Longrightarrow> meta_opt d' k = Some v"
  shows "sound_step d d'"
  using assms same_rows_repo_ok [OF assms(1)] same_rows_live [OF assms(1)] same_rows_pin [OF assms(1)]
  by (auto simp: sound_step_def same_rows_def repo_ok_def keys_ok_def)

lemma pin_obj_format_sound: "sound_step d (fst (pin_obj_format k d))"
  by (rule same_rows_sound [OF pin_obj_format_rows]) (auto simp: pin_obj_format_meta)

lemma begin_format_sound: "sound_step d (fst (begin_format b d))"
  by (auto simp: begin_format_def pin_obj_format_sound split: sum.splits option.splits)

lemma tbl_count_put: "tbl_count P (tbl_put k v t) \<le> Suc (tbl_count P t)"
  by (induction t) (auto simp: tbl_count_def)

lemma set_tbl_put: "(i, w) \<in> set (tbl_put k v t) \<Longrightarrow> (i, w) \<in> set t \<or> w = v"
  by (induction t) (auto split: if_splits)

lemma push_scope_trimmed: "push_scope admin key row = Inr s \<Longrightarrow> trimmed (Some s) \<noteq> None"
proof -
  have "trimmed (Some ALL_REFS) = Some ALL_REFS" by code_simp
  moreover have "trimmed sc = Some s \<Longrightarrow> trimmed (Some s) \<noteq> None" for sc
    by (auto simp: trimmed_def split: option.splits if_splits)
  ultimately show "push_scope admin key row = Inr s \<Longrightarrow> trimmed (Some s) \<noteq> None"
    by (auto simp: push_scope_def split: if_splits option.splits)
qed

lemma open_push_sound: "sound_step d (fst (open_push now m b d))"
proof (cases "snd (open_push now m b d)")
  case (Inl e)
  then have "fst (open_push now m b d) = d" by (auto simp: open_push_def Let_def split: if_splits sum.splits)
  then show ?thesis by simp
next
  case (Inr u)
  then obtain row where r: "fst (open_push now m b d) = d\<lparr>t_pushes := tbl_put (b_push_id b) row (t_pushes d)\<rparr>"
    and row: "trimmed (p_scope row) \<noteq> None" "p_auth row \<noteq> None" and few: "open_pushes d < 64"
    using push_scope_trimmed by (auto simp: open_push_def Let_def split: if_splits sum.splits)
  have "repo_ok d \<Longrightarrow> repo_ok (d\<lparr>t_pushes := tbl_put (b_push_id b) row (t_pushes d)\<rparr>)"
  proof (rule repo_ok_pushes)
    assume ok: "repo_ok d"
    show "tbl_ok (tbl_put (b_push_id b) row (t_pushes d))" using repo_okD [OF ok] by auto
    show "tbl_count (\<lambda>_ p. p_state p = PushOpen) (tbl_put (b_push_id b) row (t_pushes d)) \<le> 64"
      using few tbl_count_put [of "\<lambda>_ p. p_state p = PushOpen" "b_push_id b" row "t_pushes d"] by (simp add: open_pushes_def)
    show "\<And>i p. (i, p) \<in> set (tbl_put (b_push_id b) row (t_pushes d)) \<Longrightarrow> p_state p = PushOpen
        \<Longrightarrow> trimmed (p_scope p) \<noteq> None \<and> p_auth p \<noteq> None"
      using ok row set_tbl_put by (fastforce simp: repo_ok_def scopes_ok_def)
  qed
  then show ?thesis unfolding r by (simp add: sound_step_def)
qed

lemma push_begin_sound: "sound_step d (fst (push_begin X now m b d))"
proof -
  obtain d1 r1 where r: "rate_check X now (b_key b) d = (d1, r1)" by force
  obtain d2 r2 where f: "begin_format b d1 = (d2, r2)" by force
  have arm: "sound_step d2 (fst (begin_arm now m b ex d2))" for ex
    by (auto simp: begin_arm_def open_push_sound split: option.splits)
  have "sound_step d d1" "sound_step d1 d2"
    using rate_check_sound [of d X now "b_key b"] begin_format_sound [of d1 b] r f by simp_all
  then have "sound_step d d1" "sound_step d d2" "sound_step d (fst (begin_arm now m b ex d2))" for ex
    using arm sound_step_trans by blast+
  then show ?thesis
    by (auto simp: push_begin_def Let_def r f split: sum.splits prod.splits if_splits) (metis fst_conv)+
qed

interpretation beginr: request_op "\<lambda>(X, now, m, b) d. fst (push_begin X now m b d)" "\<lambda>_ _. True"
  by (rule request_opI) (auto simp: push_begin_sound)

section \<open>Packs and objects\<close>

text \<open>Changes to packs and objects that keep every live pack live and every row of one.\<close>

lemma packs_sound:
  assumes "\<And>p. pack_live d p \<Longrightarrow> pack_live (d\<lparr>t_packs := ks, t_objects := os\<rparr>) p"
    "\<And>s p r. ((s, p), r) \<in> set (t_objects d) \<Longrightarrow> pack_live d p \<Longrightarrow> ((s, p), r) \<in> set os"
    "repo_ok d \<Longrightarrow> tbl_ok ks \<and> tbl_ok os"
  shows "sound_step d (d\<lparr>t_packs := ks, t_objects := os\<rparr>)"
proof -
  let ?d = "d\<lparr>t_packs := ks, t_objects := os\<rparr>"
  have "obj_live ?d s" if "obj_live d s" for s
    using that assms(1,2) unfolding obj_live_iff by fastforce
  moreover have "repo_ok d \<Longrightarrow> repo_ok ?d"
    using assms(3) by (simp add: repo_ok_def keys_ok_def limits_ok_def scopes_ok_def open_pushes_def jobs_ok_def)
  ultimately show ?thesis by (simp add: sound_step_def meta_opt_def pin_sha_def)
qed

lemma pack_live_packs: "pack_live (d\<lparr>t_packs := ks, t_objects := os\<rparr>) p = (case map_of ks p of Some k \<Rightarrow> k_state k = Live | None \<Rightarrow> False)"
  by (simp add: pack_live_def)

lemma upsert_pack_sound: "sound_step d (fst (upsert_pack now m d))"
proof -
  have "sound_step d (d\<lparr>t_packs := tbl_put (pd_id m) k (t_packs d), t_objects := t_objects d\<rparr>)"
    if "k_state k = Ingesting" "\<not> pack_live d (pd_id m)" for k
    using that by (intro packs_sound) (auto simp: pack_live_packs pack_live_def repo_ok_def keys_ok_def split: option.splits)
  then show ?thesis by (auto simp: upsert_pack_def pack_live_def split: option.splits)
qed

lemma index_frame_sound: "index_frame d d' \<Longrightarrow> sound_step d d'"
proof -
  assume f: "index_frame d d'"
  then have e: "d' = d\<lparr>t_objects := t_objects d', t_commit_parents := t_commit_parents d'\<rparr>"
    by (cases d; cases d') (simp add: index_frame_def)
  have "sound_step d (d\<lparr>t_packs := t_packs d, t_objects := t_objects d'\<rparr>)"
    using f by (intro packs_sound) (auto simp: index_frame_def pack_live_def repo_ok_def keys_ok_def)
  moreover have "sound_step e (e\<lparr>t_commit_parents := c\<rparr>)" for e c
    by (simp add: sound_step_def meta_opt_def pin_sha_def obj_live_def live_rows_def pack_live_def
        repo_ok_def keys_ok_def limits_ok_def scopes_ok_def open_pushes_def jobs_ok_def)
  ultimately have "sound_step d (d\<lparr>t_packs := t_packs d, t_objects := t_objects d'\<rparr>\<lparr>t_commit_parents := t_commit_parents d'\<rparr>)"
    using sound_step_trans by blast
  then show "sound_step d d'" using e by simp
qed

lemma push_index_sound: "sound_step d (fst (push_index now m rows d))"
proof -
  obtain d1 n where u: "upsert_pack now m d = (d1, n)" by force
  have "sound_step d d1" using upsert_pack_sound [of d now m] u by simp
  moreover have "sound_step d1 (fst (insert_objects (pd_id m) rows d1))"
    by (simp add: insert_objects_def index_frame_sound insert_rows_frame)
  ultimately show ?thesis
    using sound_step_trans by (auto simp: push_index_def u)
qed

interpretation indexr: request_op "\<lambda>(now, m, rows) d. fst (push_index now m rows d)" "\<lambda>_ _. True"
  by (rule request_opI) (auto simp: push_index_sound)

lemma insert_job_sound: "job_row_ok r \<Longrightarrow> sound_step d (insert_job r d)"
  by (rule same_rows_sound) (auto simp: insert_job_def same_rows_def meta_opt_def jobs_ok_insert [unfolded insert_job_def])

lemma import_start_sound: "sound_step d (fst (import_start X C now b d))"
proof -
  obtain d1 r1 where f: "import_format b d = (d1, r1)" by force
  have s1: "sound_step d d1"
    using f pin_obj_format_sound [of d] by (auto simp: import_format_def Let_def split: if_splits sum.splits prod.splits option.splits) (metis fst_conv)+
  have "sound_step d1 (d1\<lparr>t_packs := put_new (im_pack b) k (t_packs d1), t_objects := t_objects d1\<rparr>)" for k
    by (intro packs_sound) (auto simp: pack_live_def put_new_def repo_ok_def keys_ok_def tbl_ok_put_new [unfolded put_new_def] split: option.splits)
  then have s2: "sound_step d (d1\<lparr>t_packs := put_new (im_pack b) k (t_packs d1)\<rparr>)" for k
    using s1 sound_step_trans by fastforce
  have "sound_step d (insert_job (new_job kd at pl cu) (d1\<lparr>t_packs := put_new (im_pack b) k (t_packs d1)\<rparr>))" for k kd at pl cu
    using sound_step_trans [OF s2 insert_job_sound] by simp
  with s1 show ?thesis
    by (auto simp: import_start_def f Let_def split: option.splits sum.splits)
qed

interpretation importr: request_op "\<lambda>(X, C, now, b) d. fst (import_start X C now b d)" "\<lambda>_ _. True"
  by (rule request_opI) (auto simp: import_start_sound)

section \<open>Boot\<close>

lemma migrate_sound: "sound_step d (migrate d)"
proof -
  have "repo_ok d \<Longrightarrow> repo_ok (migrate d)"
    unfolding migrate_def by (rule repo_ok_tokens) (auto simp: repo_okD tbl_update_def [of _ _ "t_tokens d", THEN arg_cong [where f = length]])
  then show ?thesis by (simp add: sound_step_def migrate_def)
qed

lemma put_new_sound: "sound_step d (meta_put_new k v d)"
  by (rule same_rows_sound) auto

lemma enqueue_sound: "sound_step d (enqueue k t p d)"
  by (rule same_rows_sound) (auto intro: enqueue_keeps)

lemma first_meta_sound: "sound_step d (first_meta rid owner repo now d)"
proof -
  have "sound_step d (fold (\<lambda>(k, v). meta_put_new k v) kvs d)" for kvs
  proof (induction kvs arbitrary: d)
    case (Cons kv kvs)
    show ?case using sound_step_trans [OF put_new_sound [of d "fst kv" "snd kv"] Cons.IH] by (simp add: case_prod_beta)
  qed simp
  then show ?thesis unfolding first_meta_def using sound_step_trans enqueue_sound by blast
qed

lemma boot_deleted_sound: "sound_step d (boot_deleted now d)"
proof -
  have u: "sound_step d (d\<lparr>t_jobs := tbl_update P f (t_jobs d)\<rparr>)" if "\<And>r. job_row_ok r \<Longrightarrow> job_row_ok (f r)" for P f
    by (rule same_rows_sound) (auto simp: same_rows_def meta_opt_def intro!: jobs_ok_update that)
  show ?thesis
    unfolding boot_deleted_def Let_def
    by (auto simp: job_row_ok_def intro!: u sound_step_trans [OF u enqueue_sound])
qed

lemma boot_sound: "sound_step d (fst (boot booted ho hr fresh now d))"
proof -
  let ?d0 = "if booted then d else migrate d"
  obtain d1 r where b: "boot_meta ho hr fresh now ?d0 = (d1, r)" by force
  have 0: "sound_step d ?d0" by (simp add: migrate_sound)
  have "sound_step ?d0 d1"
    using b first_meta_sound by (auto simp: boot_meta_def split: option.splits prod.splits if_splits)
  then have 1: "sound_step d d1" using 0 sound_step_trans by blast
  have "sound_step d (boot_deleted now d1)" "sound_step d (repair now d1)"
    using sound_step_trans [OF 1 boot_deleted_sound] sound_step_trans [OF 1 repr.sound] by auto
  with 1 show ?thesis
    unfolding boot_def Let_def b by (auto split: sum.split option.split)
qed

interpretation bootr: request_op "\<lambda>(booted, ho, hr, fresh, now) d. fst (boot booted ho hr fresh now d)" "\<lambda>_ _. True"
  by (rule request_opI) (auto simp: boot_sound)

section \<open>The janitor\<close>

interpretation expirer: request_op "\<lambda>(now, i) d. expire_push now i d" "\<lambda>_ _. True"
proof (rule pushes_request_op)
  fix a and d :: db
  have "closes (\<lambda>p. p\<lparr>p_state := PushExpired, p_ended_at := Some now\<rparr>)" for now by (simp add: closes_def)
  then show "\<exists>P f. closes f \<and> (case a of (now, i) \<Rightarrow> expire_push now i) d = d\<lparr>t_pushes := tbl_update P f (t_pushes d)\<rparr>"
    by (cases a) (auto simp: expire_push_def)
qed

lemma reap_live: "pack_live (reap_pack now i d) p = pack_live d p"
  by (auto simp: reap_pack_def pack_live_def map_of_tbl_update split: option.splits)

lemma reap_sound:
  assumes "\<not> pack_live d i"
  shows "sound_step d (reap_pack now i d)"
proof -
  have "reap_pack now i d = d\<lparr>t_packs := t_packs (reap_pack now i d), t_objects := t_objects (reap_pack now i d)\<rparr>"
    by (simp add: reap_pack_def)
  moreover have "sound_step d \<dots>"
    using assms reap_live [of now i d]
    by (intro packs_sound) (auto simp: reap_pack_def pack_live_def repo_ok_def keys_ok_def set_tbl_delete)
  ultimately show ?thesis by simp
qed

lemma reaps_sound: "\<forall>i \<in> set ps. \<not> pack_live d i \<Longrightarrow> sound_step d (fold (reap_pack now) ps d)"
proof (induction ps arbitrary: d)
  case (Cons p ps)
  then show ?case using sound_step_trans [OF reap_sound [of d p now]] by (simp add: reap_live)
qed simp

lemma not_live_ingesting: "tbl_ok (t_packs d) \<Longrightarrow> (i, k) \<in> set (t_packs d) \<Longrightarrow> k_state k = Ingesting \<Longrightarrow> \<not> pack_live d i"
  by (auto simp: pack_live_def tbl_ok_def)

lemma rejected_not_live: "tbl_ok (t_packs d) \<Longrightarrow> i \<in> set (rejected_packs d) \<Longrightarrow> \<not> pack_live d i"
  by (auto simp: rejected_packs_def split: if_splits dest!: not_live_ingesting)

lemma orphaned_not_live: "tbl_ok (t_packs d) \<Longrightarrow> i \<in> set (orphaned_packs now d) \<Longrightarrow> \<not> pack_live d i"
  by (auto simp: orphaned_packs_def dest!: not_live_ingesting)

lemma expires_sound: "sound_step d (fold (expire_push now) is d) \<and> t_packs (fold (expire_push now) is d) = t_packs d"
proof (induction "is" arbitrary: d)
  case (Cons i "is")
  have "sound_step d (expire_push now i d)" using expirer.sound [where a = "(now, i)" and d = d] by simp
  then show ?case using Cons.IH [of "expire_push now i d"] sound_step_trans by (auto simp: expire_push_def)
qed simp

lemma sweep_sound:
  assumes "sweep_reads now stale rejected orphaned d" and ok: "repo_ok d"
  shows "sound_step d (janitor_sweep now stale rejected orphaned d)"
proof -
  let ?d1 = "fold (expire_push now) stale d"
  let ?d2 = "fold (reap_pack now) rejected ?d1"
  have sel: "set rejected \<subseteq> set (rejected_packs ?d1)" "set orphaned \<subseteq> set (orphaned_packs now ?d2)"
    using assms(1) by (auto simp: sweep_reads_def selected_def Let_def)
  have s1: "sound_step d ?d1" using expires_sound by blast
  then have ok1: "repo_ok ?d1" using ok by (simp add: sound_step_def)
  have s2: "sound_step ?d1 ?d2" using sel(1) rejected_not_live repo_okD [OF ok1] by (intro reaps_sound) blast
  then have ok2: "repo_ok ?d2" using ok1 by (simp add: sound_step_def)
  have "sound_step ?d2 (fold (reap_pack now) orphaned ?d2)"
    using sel(2) orphaned_not_live repo_okD [OF ok2] by (intro reaps_sound) blast
  then show ?thesis unfolding janitor_sweep_def using s1 s2 sound_step_trans by blast
qed

interpretation sweepr: request_op "\<lambda>(now, stale, rejected, orphaned) d. janitor_sweep now stale rejected orphaned d"
    "\<lambda>(now, stale, rejected, orphaned) d. sweep_reads now stale rejected orphaned d \<and> repo_ok d"
  by (rule request_opI) (auto simp: sweep_sound)

lemma drop_pack_sound: "\<not> pack_live d i \<Longrightarrow> sound_step d (janitor_drop_pack i d)"
proof -
  assume n: "\<not> pack_live d i"
  have "sound_step d (d\<lparr>t_packs := tbl_del i (t_packs d), t_objects := t_objects d\<rparr>)"
    using n by (intro packs_sound) (auto simp: pack_live_def repo_ok_def keys_ok_def)
  then show "sound_step d (janitor_drop_pack i d)" by (simp add: janitor_drop_pack_def)
qed

interpretation droppr: request_op janitor_drop_pack "\<lambda>i d. \<not> pack_live d i"
  by (rule request_opI) (rule drop_pack_sound)

interpretation dropjr: request_op janitor_drop_job "\<lambda>_ _. True"
proof (rule rows_request_op)
  show "same_rows d (janitor_drop_job i d)" for i d by (simp add: janitor_drop_job_def same_rows_def)
  show "jobs_ok d \<Longrightarrow> jobs_ok (janitor_drop_job i d)" for i d
    by (auto simp: janitor_drop_job_def jobs_ok_def tbl_del_def [of i] tbl_ok_def distinct_map_filter)
qed (auto simp: janitor_drop_job_def meta_opt_def)

lemma finish_sound: "sound_step d (janitor_finish X strikes now rows d)"
proof -
  have "sound_step d (d\<lparr>t_reflog := nths (t_reflog d) (- set rows)\<rparr>)"
    by (auto simp: sound_step_def meta_opt_def pin_sha_def obj_live_def live_rows_def pack_live_def subseq_conv_nths
        repo_ok_def keys_ok_def limits_ok_def scopes_ok_def open_pushes_def jobs_ok_def)
  moreover have "sound_step e (trigger X strikes now e)" for e using trigr.sound [where a = "(X, strikes, now)" and d = e] by simp
  ultimately show ?thesis unfolding janitor_finish_def using sound_step_trans by blast
qed

interpretation finishr: request_op "\<lambda>(X, strikes, now, rows) d. janitor_finish X strikes now rows d" "\<lambda>_ _. True"
  by (rule request_opI) (auto simp: finish_sound)

end
