(* ===== verification/Commit_Keeps.thy ===== *)
theory Commit_Keeps
  imports Repo_Invariants
begin

text \<open>A commit keeps the database well-formed, loses no live pack and extends the history of the refs.\<close>

section \<open>Stage by stage\<close>

definition grow :: "db \<Rightarrow> db \<Rightarrow> bool" where
  "grow d d' \<longleftrightarrow> (repo_ok d \<longrightarrow> repo_ok d' \<and> (\<forall>p. pack_live d p \<longrightarrow> pack_live d' p))"

lemma grow_refl [simp]: "grow d d"
  by (simp add: grow_def)

lemma grow_trans: "grow d e \<Longrightarrow> grow e f \<Longrightarrow> grow d f"
  by (simp add: grow_def)

lemma same_rows_grow:
  assumes "same_rows d d'" "tbl_ok (t_meta d) \<Longrightarrow> tbl_ok (t_meta d')" "jobs_ok d \<Longrightarrow> jobs_ok d'"
  shows "grow d d'"
  using assms same_rows_repo_ok [OF assms(1)]
  by (auto simp: grow_def repo_ok_def keys_ok_def same_rows_def pack_live_def)

lemma bump_grow: "grow d (meta_bump k d)" "grow d (meta_put k v d)"
  by (auto intro!: same_rows_grow)

lemma enqueue_grow: "grow d (enqueue k t p d)"
  by (auto intro!: same_rows_grow enqueue_keeps)

lemma adopt_head_grow: "grow d (adopt_head d)"
  by (auto simp: adopt_head_def bump_grow split: option.splits)

lemma finish_push_grow: "st \<noteq> PushOpen \<Longrightarrow> grow d (finish_push q st now rs d)"
  unfolding grow_def finish_push_def
  by (intro impI conjI repo_ok_close) (auto simp: pack_live_def)

lemma gc_tables_grow:
  "grow d (d\<lparr>t_gc_pending := x\<rparr>)" "grow d (d\<lparr>t_gc_frontier := y\<rparr>)"
  by (simp_all add: grow_def pack_live_def repo_ok_def keys_ok_def limits_ok_def scopes_ok_def open_pushes_def jobs_ok_def)

lemma feed_one_grow: "grow d (feed_one s d)"
  by (simp add: feed_one_def gc_tables_grow)

lemma feed_landing_grow: "grow d (barrier_feed_landing fs d)"
proof (induction fs arbitrary: d)
  case (Cons f fs)
  from grow_trans [OF feed_one_grow [of d f] Cons.IH] show ?case by (simp add: barrier_feed_landing_def)
qed (simp add: barrier_feed_landing_def)

lemma barrier_landing_grow: "grow d (barrier_landing X b c d)"
  using grow_trans [OF feed_landing_grow bump_grow(1)] bump_grow(1) by (simp add: barrier_landing_def)

lemma barrier_landing_refs: "t_refs (barrier_landing X b c d) = t_refs d"
  using barrier_pre by blast

lemma refs_grow: "(repo_ok d \<Longrightarrow> tbl_ok t \<and> length t \<le> MAX_REFS) \<Longrightarrow> grow d (d\<lparr>t_refs := t\<rparr>)"
  by (auto simp: grow_def pack_live_def repo_ok_def keys_ok_def limits_ok_def scopes_ok_def open_pushes_def jobs_ok_def)

lemma write_ref_grow:
  assumes "is_null X (c_old c) \<Longrightarrow> length (t_refs d) < MAX_REFS"
  shows "grow d (fst (write_ref X c now d))"
proof -
  have put: "grow d (d\<lparr>t_refs := tbl_put (c_name c) r (t_refs d)\<rparr>)"
    if "length (t_refs d) < MAX_REFS \<or> map_of (t_refs d) (c_name c) \<noteq> None" for r
    using that length_tbl_put [of "c_name c" r "t_refs d"] length_tbl_put_old [of "t_refs d" "c_name c" r]
    by (intro refs_grow) (auto simp: repo_ok_def keys_ok_def limits_ok_def)
  have del: "grow d (d\<lparr>t_refs := tbl_del (c_name c) (t_refs d)\<rparr>)"
    by (rule refs_grow) (auto simp: repo_ok_def keys_ok_def limits_ok_def length_tbl_del_le)
  show ?thesis using assms put del by (auto simp: write_ref_def Let_def split: option.splits)
qed

lemma log_ref_grow: "grow d (log_ref c push who now d)"
  by (simp add: log_ref_def grow_def pack_live_def repo_ok_def keys_ok_def limits_ok_def scopes_ok_def open_pushes_def jobs_ok_def)

lemma refuse_room: "refuse X head c scopes d = Inr None \<Longrightarrow> is_null X (c_old c) \<Longrightarrow> length (t_refs d) < MAX_REFS"
  by (auto simp: refuse_def Let_def split: if_splits option.splits sum.splits)

lemma apply_one_grow: "grow d (fst (apply_one X head c push who now wr barrier scopes d))"
proof (cases "refuse X head c scopes d = Inr None")
  case True
  let ?d1 = "barrier_landing X barrier c d"
  obtain d2 n where w: "write_ref X c now ?d1 = (d2, n)" by force
  have "grow ?d1 d2" using write_ref_grow [of X c ?d1 now] refuse_room [OF True] w by (simp add: barrier_landing_refs)
  then have "grow d d2" using barrier_landing_grow grow_trans by blast
  moreover from this have "grow d (log_ref c push who now d2)" using log_ref_grow grow_trans by blast
  ultimately show ?thesis using True w by (simp add: apply_one_def Let_def)
qed (auto simp: apply_one_def split: sum.splits option.splits)

lemma apply_all_grow:
  "apply_all (\<lambda>c. apply_one X head c push who now wr barrier scopes) cs d = (d', r) \<Longrightarrow> grow d d'"
proof (induction cs arbitrary: d r)
  case (Cons c cs)
  obtain d1 r1 where c: "apply_one X head c push who now wr barrier scopes d = (d1, r1)" by force
  then have "grow d d1" using apply_one_grow [of d X head c push who now wr barrier scopes] by simp
  with c Cons show ?case
    using grow_trans by (fastforce split: sum.splits prod.splits)
qed simp

lemma record_push_event_grow: "grow d (fst (record_push_event X q cmds rs now d))"
proof -
  have "grow d (d\<lparr>t_push_events := t_push_events d @ [e], events_seq := n\<rparr>)" if "int (length (t_push_events d)) < MAX_PENDING" for e n
    using that by (simp add: grow_def pack_live_def repo_ok_def keys_ok_def limits_ok_def scopes_ok_def open_pushes_def jobs_ok_def)
  then show ?thesis
    using grow_trans [OF _ enqueue_grow] bump_grow
    by (auto simp: record_push_event_def Let_def split: sum.splits option.splits)
qed

lemma settle_grow: "settle X q cmds rs now d = (d', r) \<Longrightarrow> grow d d'"
proof -
  assume s: "settle X q cmds rs now d = (d', r)"
  let ?d1 = "if list_ex (\<lambda>(_, r). r = None) rs \<or> q_pack_id q \<noteq> None then meta_bump ''refs_version'' d else d"
  let ?d2 = "enqueue GcMark (now + env_i64 X ''GE_GC_QUIET_MS'' 600000) ''{}'' (adopt_head ?d1)"
  obtain d3 o3 where ev: "record_push_event X q cmds rs now ?d2 = (d3, o3)" by force
  have g1: "grow d ?d1" by (simp add: bump_grow)
  have "grow ?d1 ?d2" using grow_trans [OF adopt_head_grow enqueue_grow] .
  moreover have "grow ?d2 d3" using record_push_event_grow [of ?d2 X q cmds rs now] ev by simp
  ultimately have g3: "grow d d3" using g1 grow_trans by blast
  from s have "d' = finish_push q PushCommitted now rs ?d1 \<or> d' = d3 \<or> d' = finish_push q PushCommitted now rs d3"
    unfolding settle_def Let_def ev by (auto split: if_splits sum.splits)
  then show "grow d d'" using g1 g3 grow_trans [OF _ finish_push_grow] by auto
qed

section \<open>Promotion and its undoing\<close>

lemma repo_ok_packs: "repo_ok d \<Longrightarrow> tbl_ok ks \<Longrightarrow> repo_ok (d\<lparr>t_packs := ks\<rparr>)"
  by (simp add: repo_ok_def keys_ok_def limits_ok_def scopes_ok_def open_pushes_def jobs_ok_def)

lemma pack_live_Some: "pack_live d p \<longleftrightarrow> (\<exists>k. map_of (t_packs d) p = Some k \<and> k_state k = Live)"
  by (simp add: pack_live_def split: option.splits)

lemma tbl_update_live:
  "(\<exists>k. map_of (tbl_update P f t) p = Some k \<and> k_state k = Live)
     \<longleftrightarrow> (\<exists>k. map_of t p = Some k \<and> k_state (if P p k then f k else k) = Live)"
  by (cases "map_of t p") (auto simp: map_of_tbl_update)

lemma promote_grow: "promote X strikes now b pack push d = (d', r) \<Longrightarrow> grow d d'"
proof -
  let ?d1 = "if b then barrier_write_pending pack d else d"
  let ?P = "\<lambda>i k. i = pack \<and> promotable pack push k"
  let ?d2 = "?d1\<lparr>t_packs := tbl_update ?P (\<lambda>k. k\<lparr>k_state := Live\<rparr>) (t_packs ?d1)\<rparr>"
  assume "promote X strikes now b pack push d = (d', r)"
  then have d': "d' = ?d2 \<or> d' = trigger X strikes now ?d2"
    by (auto simp: promote_def Let_def split: if_splits)
  have "grow d ?d1"
    using grow_trans [OF gc_tables_grow(1) bump_grow(1)] by (simp add: barrier_write_pending_def)
  moreover have "grow ?d1 ?d2"
    using repo_okD [of ?d1] by (auto simp: grow_def repo_ok_packs pack_live_Some tbl_update_live)
  moreover have "grow e (trigger X strikes now e)" for e
    by (rule same_rows_grow) (auto simp: queue_meta same_repo_rows trigger_frame intro: trigger_keeps)
  ultimately show "grow d d'" using d' grow_trans by blast
qed

text \<open>After a promotion, demoting the pack takes no pack away that was live before.\<close>

lemma demote_grow:
  assumes "promote X strikes now b pack push d = (d1, Inr ())"
  shows "grow d (demote b pack push d1)"
proof -
  let ?P = "\<lambda>i k. i = pack \<and> k_push_id k = Some push"
  have g: "grow d d1" using promote_grow [OF assms] .
  have np: "repo_ok d \<Longrightarrow> \<not> pack_live d pack"
  proof -
    assume ok: "repo_ok d"
    have "tbl_count (\<lambda>i k. i = pack \<and> promotable pack push k) (t_packs d) = 1"
      using assms by (cases b) (auto simp: promote_def Let_def barrier_write_pending_def split: if_splits)
    then obtain k where "(pack, k) \<in> set (t_packs d)" "k_state k = Ingesting"
      using tbl_count_pos [of "\<lambda>i k. i = pack \<and> promotable pack push k" "t_packs d"] by (auto simp: promotable_def)
    then show ?thesis using not_live_ingesting repo_okD [OF ok] by blast
  qed
  have dl: "pack_live (demote b pack push d1) p \<longleftrightarrow> (\<exists>k. map_of (t_packs d1) p = Some k
      \<and> k_state (if ?P p k then k\<lparr>k_state := Ingesting\<rparr> else k) = Live)" for p
    by (simp add: demote_def Let_def pack_live_Some tbl_update_live)
  have "repo_ok d1 \<Longrightarrow> repo_ok (demote b pack push d1)"
    using gc_tables_grow(1) repo_okD [of d1] by (auto simp: demote_def Let_def grow_def repo_ok_packs)
  moreover have "pack_live (demote b pack push d1) p" if "repo_ok d" "pack_live d p" for p
  proof -
    have "p \<noteq> pack" "pack_live d1 p" using that np g by (auto simp: grow_def)
    then show ?thesis unfolding dl by (simp add: pack_live_Some)
  qed
  ultimately show ?thesis using g by (simp add: grow_def)
qed

section \<open>The whole commit\<close>

lemma apply_cmds_grow:
  assumes run: "apply_cmds X q cmds now barrier scopes d1 = (d', out)"
    and g: "grow d d1" "\<And>p. q_pack_id q = Some p \<Longrightarrow> grow d (demote barrier p (q_push_id q) d1)"
  shows "grow d d'"
proof (cases "meta_get d1 ''head''")
  case (Inr head)
  let ?all = "\<lambda>wr. apply_all (\<lambda>c. apply_one X head c (q_push_id q) (q_principal q) now wr barrier scopes) cmds d1"
  obtain d2 dry where dr: "?all False = (d2, dry)" by force
  obtain d3 o3 where wr: "?all True = (d3, o3)" by force
  have d2: "d2 = d1" using dr apply_all_dry apply_all_dry_error by (cases dry) metis+
  have g3: "grow d d3" using grow_trans [OF g(1) apply_all_grow [OF wr]] .
  from run Inr dr wr d2 consider "d' = d1"
    | p rs where "q_pack_id q = Some p" "d' = finish_push q PushRejected now rs (demote barrier p (q_push_id q) d1)"
    | rs where "d' = finish_push q PushRejected now rs d1" | "d' = d3" | rs where "settle X q cmds rs now d3 = (d', out)"
    by (auto simp: apply_cmds_def Let_def split: sum.splits if_splits option.splits)
  then show ?thesis
  proof cases
    case (2 p rs)
    then show ?thesis using grow_trans [OF g(2) finish_push_grow] by simp
  next
    case (3 rs)
    then show ?thesis using grow_trans [OF g(1) finish_push_grow] by simp
  next
    case (5 rs)
    then show ?thesis using grow_trans [OF g3 settle_grow] by blast
  qed (use g g3 in simp_all)
qed (use run g in \<open>auto simp: apply_cmds_def\<close>)

lemma commit_grow:
  assumes run: "commit_push X strikes now q d = (d', out)"
  shows "grow d d'"
proof -
  have rej: "grow d (finish_push q PushRejected now rs d)" for rs by (rule finish_push_grow) simp
  from run consider "d' = d" | rs where "d' = finish_push q PushRejected now rs d"
    | cmds barrier scopes where "q_pack_id q = None" "apply_cmds X q cmds now barrier scopes d = (d', out)"
    | pack b r where "promote X strikes now b pack (q_push_id q) d = (d', r)"
    | pack b d1 cmds scopes where "q_pack_id q = Some pack" "promote X strikes now b pack (q_push_id q) d = (d1, Inr ())"
        "apply_cmds X q cmds now b scopes d1 = (d', out)"
    by (auto simp: commit_push_def Let_def split: sum.splits option.splits if_splits prod.splits)
  then show ?thesis
  proof cases
    case (3 cmds barrier scopes)
    then show ?thesis using apply_cmds_grow [OF 3(2), of d] by simp
  next
    case (4 pack b r)
    then show ?thesis by (rule promote_grow)
  next
    case (5 pack b d1 cmds scopes)
    show ?thesis using apply_cmds_grow [OF 5(3) promote_grow [OF 5(2)]] demote_grow [OF 5(2)] 5(1) by simp
  qed (use rej in simp_all)
qed

lemma commit_keeps_git_ok:
  assumes run: "commit_push X strikes now q d = (d', out)" and ok: "git_ok X hist d"
  shows "\<exists>es. git_ok X (hist @ es) d' \<and> t_reflog d' = t_reflog d @ es"
proof -
  from commit_run [OF run] obtain es where es: "t_reflog d' = t_reflog d @ es" "journal X es (ref_map d)"
    "ref_map d' = replay X es (ref_map d)" and st: "t_pins d' = t_pins d" "t_objects d' = t_objects d" by blast
  have g: "repo_ok d'" "\<And>p. pack_live d p \<Longrightarrow> pack_live d' p"
    using commit_grow [OF run] ok by (auto simp: grow_def git_ok_def)
  have old: "obj_live d s \<Longrightarrow> obj_live d' s" for s
    unfolding obj_live_iff st(2) using g(2) by blast
  have "ref_map d' n = Some t \<Longrightarrow> obj_live d' t" for n t
  proof (cases "ref_map d' n = ref_map d n")
    case True
    then show "ref_map d' n = Some t \<Longrightarrow> obj_live d' t" using ok old by (simp add: git_ok_def)
  next
    case False
    from commit_moved [OF run this] obtain e p current d1 head where
      "ref_map d' n = (if is_null X (l_new e) then None else Some (l_new e))"
      "entry_ok X head (both_scopes p current) d1 e" "t_packs d' = t_packs d1" "t_objects d' = t_objects d1" by metis
    then show "ref_map d' n = Some t \<Longrightarrow> obj_live d' t"
      using obj_live_cong [of d' d1] by (auto simp: entry_ok_def split: if_splits)
  qed
  moreover have "pin_sha d' n = Some s \<Longrightarrow> ref_map d' n = Some s" for n s
  proof -
    assume p: "pin_sha d' n = Some s"
    then have p': "pin_sha d n = Some s" by (simp add: pin_sha_def st)
    have "ref_map d' n = ref_map d n"
    proof (rule ccontr)
      assume "ref_map d' n \<noteq> ref_map d n"
      from commit_moved [OF run this] obtain e p current d1 head where c: "l_name e = n" "cleared X strikes now q d p current d1"
        "entry_ok X head (both_scopes p current) d1 e" by metis
      then show False using p' kept_tables [OF cleared_kept [OF c(2)]] by (simp add: entry_ok_def pin_sha_def)
    qed
    moreover have "ref_map d n = Some s" using ok p' unfolding git_ok_def by blast
    ultimately show ?thesis by simp
  qed
  moreover have "subseq (t_reflog d') (hist @ es)"
    using ok unfolding es(1) git_ok_def by (simp add: subseq_append)
  ultimately show ?thesis
    using ok es g(1) by (auto simp: git_ok_def journal_append replay_append)
qed

end
