(* ===== verification/First_Push.thy ===== *)
theory First_Push
  imports Commit_Safety
begin

text \<open>
  A run of the model from the empty store: the first boot of a repository, an admin's push with one
  commit in one pack, and its commit, which creates the main branch. The theorems about reachable
  repositories are applied to it.
\<close>

definition run_ext :: ext where
  "run_ext = plain_ext\<lparr>from_hex := Inr\<rparr>"

definition run_meta :: repo_meta where
  "run_meta = \<lparr>m_repo_id = ''id'', m_owner = ''o'', m_repo = ''r'', m_head = ''refs/heads/main'', m_refs_version = 0,
     m_gc_epoch = 0, m_deleted = False\<rparr>"

definition run_begin :: begin_dto where
  "run_begin = \<lparr>b_push_id = ''p'', b_principal = ''dev'', b_key = [], b_object_format = None, b_admin = True\<rparr>"

definition run_pack :: pack_dto where
  "run_pack = \<lparr>pd_id = ''k'', pd_push_id = ''p'', pd_count = 1, pd_bytes = 9, pd_commit_lo = 0, pd_commit_hi = 9\<rparr>"

definition run_rows :: "obj_in list" where
  "run_rows = [\<lparr>in_sha = ''a1'', in_idx = 0, in_offset = 0, in_len = 9, in_kind = Commit, in_size = 7, in_parents = Some []\<rparr>]"

definition run_cmd :: cmd where
  "run_cmd = \<lparr>c_old = ''0'', c_new = ''a1'', c_name = ''refs/heads/main'', c_peeled = None\<rparr>"

definition run_req :: commit_req where
  "run_req = \<lparr>q_push_id = ''p'', q_pack_id = Some ''k'', q_principal = ''dev'', q_commands = [run_cmd], q_atomic = False\<rparr>"

definition run_booted :: db where
  "run_booted = empty_db\<lparr>
     t_meta := [(''repo_id'', ''id''), (''owner'', ''o''), (''repo'', ''r''), (''head'', ''refs/heads/main''), (''refs_version'', ''0''),
                (''gc_epoch'', ''0''), (''created_at'', ''0''), (''schema_version'', ''1'')],
     t_jobs := [(1, \<lparr>j_kind = ''janitor'', j_run_at = 0, j_attempts = 0, j_cursor = None, j_payload = ''{}'', j_state = JQueued,
                     j_last_error = None, j_started_at = None, j_lease = None, j_strands = 0\<rparr>)],
     jobs_seq := 1\<rparr>"

definition run_push :: push_row where
  "run_push = \<lparr>p_state = PushOpen, p_pack_id = None, p_principal = ''dev'', p_began_at = 1, p_ended_at = None, p_gc_epoch = 0,
     p_result = None, p_swept_at = None, p_scope = Some ''refs/*'', p_auth = Some ADMIN_AUTH\<rparr>"

definition run_begun :: db where
  "run_begun = run_booted\<lparr>t_pushes := [(''p'', run_push)], t_rate := [((''push:'', 0), 1)]\<rparr>"

definition run_indexed :: db where
  "run_indexed = run_begun\<lparr>
     t_packs := [(''k'', \<lparr>k_state = Ingesting, k_count = 1, k_bytes = 9, k_commit_lo = 0, k_commit_hi = 9, k_push_id = Some ''p'',
                         k_created_at = 2, k_dead_at = None\<rparr>)],
     t_objects := [((''a1'', ''k''), \<lparr>o_idx = 0, o_offset = 0, o_len = 9, o_kind = 1, o_size = 7\<rparr>)],
     t_commit_parents := [((''a1'', - 1), None)]\<rparr>"

lemma run_boot: "fst (boot True (Some ''o'') (Some ''r'') ''id'' 0 empty_db) = run_booted"
  by code_simp

lemma run_begin: "fst (push_begin run_ext 1 run_meta run_begin run_booted) = run_begun"
  by code_simp

lemma run_index: "fst (push_index 2 run_pack run_rows run_begun) = run_indexed"
  by code_simp

text \<open>The commit, part by part; the ref limit is compared in binary.\<close>

lemma max_refs_code [code_unfold]: "MAX_REFS \<le> n \<longleftrightarrow> (65536 :: int) \<le> int n"
  by (simp add: MAX_REFS_def)

definition run_promoted :: db where
  "run_promoted = fst (promote run_ext (\<lambda>_. None) 3 False ''k'' ''p'' run_indexed)"

definition run_landed :: db where
  "run_landed = fst (apply_cmds run_ext run_req [run_cmd] 3 False [Some ''refs/*'', Some ''refs/*''] run_promoted)"

lemma run_epoch: "meta_i64 run_indexed ''gc_epoch'' = Inr 0"
proof -
  have "int_dec 0 = ''0''" by code_simp
  then have "parse_i64 ''0'' = Some 0" using parse_i64_int_dec [of 0] by simp
  then show ?thesis by (simp add: meta_i64_def meta_get_def meta_opt_def run_indexed_def run_begun_def run_booted_def)
qed

lemma run_checks:
  "traverse (parse_cmd run_ext) (q_commands run_req) = Inr [run_cmd]"
  "map_of (t_pushes run_indexed) ''p'' = Some run_push"
  "commit_auth (p_auth run_push) (credential_row 3 run_push run_indexed) = Inr None"
  "\<not> barrier_active run_indexed"
  "over_quota run_ext ''p'' run_indexed = None"
  "snd (promote run_ext (\<lambda>_. None) 3 False ''k'' ''p'' run_indexed) = Inr ()"
  by code_simp+

lemma run_apply:
  "snd (apply_cmds run_ext run_req [run_cmd] 3 False [Some ''refs/*'', Some ''refs/*''] run_promoted) = Inr [(''refs/heads/main'', None)]"
  by code_simp

lemma run_landed_rows:
  "ref_map run_landed ''refs/heads/main'' = Some ''a1''"
  "map (\<lambda>l. (l_name l, l_old l, l_new l)) (t_reflog run_landed) = [(''refs/heads/main'', ''0'', ''a1'')]"
  by code_simp+

lemma run_span:
  assumes "q_push_id q = ''p''" "q_pack_id q = Some ''k''" "traverse (parse_cmd run_ext) (q_commands q) = Inr cmds"
  shows "commit_push run_ext (\<lambda>_. None) 3 q run_indexed = apply_cmds run_ext q cmds 3 False [Some ''refs/*'', Some ''refs/*''] run_promoted"
proof -
  have "promote run_ext (\<lambda>_. None) 3 False ''k'' ''p'' run_indexed = (run_promoted, Inr ())"
    using run_checks(6) by (simp add: run_promoted_def prod_eq_iff)
  with assms run_checks run_epoch show ?thesis by (simp add: commit_push_def Let_def run_push_def)
qed

lemma run_commit:
  "commit_push run_ext (\<lambda>_. None) 3 run_req run_indexed = (run_landed, Inr [(''refs/heads/main'', None)])"
  using run_span [of run_req "[run_cmd]"] run_checks(1) run_apply by (simp add: run_req_def run_landed_def prod_eq_iff)

end
