(* ===== verification/Repo_Machine.thy ===== *)
theory Repo_Machine
  imports Commit_Keeps First_Push
begin

text \<open>
  The repository object as a state machine: every request handler, every operation of the job
  queue, every span of the janitor and the wipe of a purge, in any order. The state is the database
  and, as a ghost, the history of the rows commits have logged, which the janitor's reflog expiry
  does not shorten. A handler's writes count whether or not it then fails: a platform that rolls the
  span of a fatal error back only removes steps.

  The slices of garbage collection, compaction and import write rows too; they are not steps here.
\<close>

type_synonym repo_state = "reflog_row list \<times> db"

inductive request_step :: "ext \<Rightarrow> db \<Rightarrow> db \<Rightarrow> bool" for X where
  boot: "request_step X d (fst (boot booted owner repo fresh now d))"
| token_create: "map_of (t_tokens d) tid = None \<Longrightarrow> request_step X d (fst (token_create X now secret tid hash b d))"
| token_revoke: "request_step X d (fst (token_revoke tid d))"
| delete_repo: "request_step X d (delete_repo now d)"
| set_public: "request_step X d (fst (set_public enabled d))"
| set_format: "request_step X d (fst (set_format fmt d))"
| pin: "request_step X d (fst (pin X now ref sha d))"
| unpin: "request_step X d (fst (unpin X ref d))"
| protect: "request_step X d (fst (protect X now pattern d))"
| unprotect: "request_step X d (fst (unprotect pattern d))"
| push_begin: "request_step X d (fst (push_begin X now m bd d))"
| push_abort: "request_step X d (fst (push_abort pid d))"
| push_index: "request_step X d (fst (push_index now pm rows d))"
| import_start: "request_step X d (fst (import_start X C now im d))"
| heartbeat: "request_step X d (fst (heartbeat now job d))"
| claim: "request_step X d (fst (claim now lease p d))"
| land: "request_step X d (fst (land_outcome X job now out d))"
| trigger: "request_step X d (trigger X strikes now d)"
| sweep: "sweep_reads now stale rejected orphaned d \<Longrightarrow> request_step X d (janitor_sweep now stale rejected orphaned d)"
| swept: "request_step X d (janitor_swept now i d)"
| drop_pack: "\<not> pack_live d i \<Longrightarrow> request_step X d (janitor_drop_pack i d)"
| drop_job: "request_step X d (janitor_drop_job j d)"
| finish: "request_step X d (janitor_finish X strikes now gone d)"

inductive repo_step :: "ext \<Rightarrow> repo_state \<Rightarrow> repo_state \<Rightarrow> bool" for X where
  request: "request_step X d d' \<Longrightarrow> repo_step X (h, d) (h, d')"
| commit: "commit_push X strikes now q d = (d', out) \<Longrightarrow> t_reflog d' = t_reflog d @ es \<Longrightarrow> repo_step X (h, d) (h @ es, d')"
| wipe: "wipe now job d = (d', Inr Done) \<Longrightarrow> repo_step X (h, d) ([], d')"
| delete_all: "repo_step X (h, d) ([], delete_all d)"

definition repo_reachable :: "ext \<Rightarrow> repo_state \<Rightarrow> bool" where
  "repo_reachable X s \<longleftrightarrow> (repo_step X)\<^sup>*\<^sup>* ([], empty_db) s"

section \<open>The invariant\<close>

lemma git_ok_fresh:
  "repo_ok d \<Longrightarrow> t_refs d = [] \<Longrightarrow> t_reflog d = [] \<Longrightarrow> t_pins d = [] \<Longrightarrow> git_ok X [] d"
  by (simp add: git_ok_def ref_map_def pin_sha_def fun_eq_iff)

lemma git_ok_repo: "git_ok X h d \<Longrightarrow> repo_ok d"
  by (simp add: git_ok_def)

lemma wipe_fresh: "wipe now job d = (d', Inr Done) \<Longrightarrow> repo_ok d \<Longrightarrow> git_ok X [] d'"
proof -
  assume w: "wipe now job d = (d', Inr Done)" and ok: "repo_ok d"
  then obtain d1 where d': "d' = wipe_rows job d1" and d1: "d1 = fst (heartbeat now job d)"
    by (auto simp: wipe_def split: prod.splits bool.splits)
  have "jobs_ok d1" using ok heartbeat_keeps d1 by (simp add: repo_ok_def)
  then have "jobs_ok d'" by (auto simp: d' wipe_rows_def jobs_ok_def tbl_ok_def distinct_map_filter)
  then have "repo_ok d'"
    using repo_ok_empty by (simp add: d' wipe_rows_def repo_ok_def keys_ok_def limits_ok_def scopes_ok_def open_pushes_def empty_db_def)
  then show "git_ok X [] d'" by (rule git_ok_fresh) (simp_all add: d' wipe_rows_def empty_db_def)
qed

lemma request_step_sound: "request_step X d d' \<Longrightarrow> repo_ok d \<Longrightarrow> sound_step d d'"
proof (induction rule: request_step.induct)
  case (sweep now stale rejected orphaned d)
  then show ?case using sweepr.sound [where a = "(now, stale, rejected, orphaned)"] by simp
next
  case (drop_pack d i)
  then show ?case using droppr.sound by simp
next
  case (token_create d tid now secret hash b)
  then show ?case using mintr.sound [where a = "(X, now, secret, tid, hash, b)"] by simp
qed (use bootr.sound revoker.sound delq.sound pubq.sound fmtq.sound pinr.sound unpinr.sound protr.sound unprotr.sound beginr.sound
    abortr.sound indexr.sound importr.sound hbr.sound claimr.sound landr.sound trigr.sound sweptr.sound dropjr.sound finishr.sound
    in \<open>fastforce split: prod.splits\<close>)+

lemma sound_git_ok: "sound_step d d' \<Longrightarrow> git_ok X h d \<Longrightarrow> git_ok X h d'"
proof -
  assume s: "sound_step d d'" and g: "git_ok X h d"
  have m: "ref_map d' = ref_map d" using s by (intro ref_map_cong) (simp add: sound_step_def)
  have "subseq (t_reflog d') h" using s g subseq_order.trans by (auto simp: git_ok_def sound_step_def)
  moreover have "\<forall>n s. pin_sha d' n = Some s \<longrightarrow> ref_map d n = Some s" using s g unfolding git_ok_def sound_step_def by blast
  ultimately show ?thesis using s g m by (simp add: git_ok_def sound_step_def)
qed

lemma repo_step_git_ok: "repo_step X s s' \<Longrightarrow> git_ok X (fst s) (snd s) \<Longrightarrow> git_ok X (fst s') (snd s')"
proof (induction rule: repo_step.induct)
  case (request d d' h)
  then have "sound_step d d'" using request_step_sound git_ok_repo by (metis fst_conv snd_conv)
  with request show ?case using sound_git_ok by simp
next
  case (commit strikes now q d d' out es h)
  then show ?case using commit_keeps_git_ok [OF commit(1)] by fastforce
next
  case (wipe now job d d' h)
  then show ?case using wipe_fresh git_ok_repo by simp
next
  case (delete_all h d)
  then show ?case using git_ok_fresh [OF repo_ok_empty] by (simp add: delete_all_def empty_db_def)
qed

lemma reachable_git_ok: "repo_reachable X s \<Longrightarrow> git_ok X (fst s) (snd s)"
  unfolding repo_reachable_def
proof (induction rule: rtranclp_induct)
  case base
  show ?case using git_ok_fresh [OF repo_ok_empty] by (simp add: empty_db_def)
next
  case (step s s')
  then show ?case by (simp add: repo_step_git_ok)
qed

lemma reachable_trans: "repo_reachable X s \<Longrightarrow> repo_step X s s' \<Longrightarrow> repo_reachable X s'"
  by (simp add: repo_reachable_def)

text \<open>The run of \<open>First_Push\<close>, and a pin of the branch it creates.\<close>

lemma begun_reached: "repo_reachable run_ext ([], run_begun)"
proof -
  have "repo_reachable run_ext ([], empty_db)" by (simp add: repo_reachable_def)
  from reachable_trans [OF this repo_step.request [OF request_step.boot [of _ _ True "Some ''o''" "Some ''r''" "''id''" 0]]]
  have "repo_reachable run_ext ([], run_booted)" by (simp add: run_boot)
  from reachable_trans [OF this repo_step.request [OF request_step.push_begin [of _ _ 1 run_meta run_begin]]]
  show ?thesis by (simp add: run_begin)
qed

lemma run_reached: "repo_reachable run_ext (t_reflog run_landed, run_landed)"
proof -
  from reachable_trans [OF begun_reached repo_step.request [OF request_step.push_index [of _ _ 2 run_pack run_rows]]]
  have "repo_reachable run_ext ([], run_indexed)" by (simp add: run_index)
  moreover have "t_reflog run_indexed = []"
    by (simp add: run_indexed_def run_begun_def run_booted_def empty_db_def)
  ultimately show ?thesis
    using reachable_trans [OF _ repo_step.commit [OF run_commit, of "t_reflog run_landed" "[]"]] by simp
qed

definition run_pinned :: db where
  "run_pinned = fst (pin run_ext 9 ''refs/heads/main'' ''a1'' run_landed)"

lemma pinned_reached: "repo_reachable run_ext (t_reflog run_landed, run_pinned)"
  unfolding run_pinned_def by (rule reachable_trans [OF run_reached repo_step.request [OF request_step.pin]])

lemma pinned_rows: "pin_sha run_pinned ''refs/heads/main'' = Some ''a1''" "length (t_pins run_pinned) = 1"
  by code_simp+

section \<open>What holds in every reachable repository\<close>

text \<open>
  C1. Refinement of the repository by its history: in every state that any sequence of requests, job
  operations, janitor spans and purges reaches, the history of landed commits since the last purge is
  a journal that starts from no refs (each row's old value is the value the ref had), the ref table is
  exactly its replay, and the stored reflog is a subsequence of it, in order: what was lost is
  what the janitor expired.
\<close>

theorem refs_refine_history:
  assumes "repo_reachable X (h, d)"
  shows "journal X h (\<lambda>_. None) \<and> ref_map d = replay X h (\<lambda>_. None) \<and> subseq (t_reflog d) h"
  using reachable_git_ok [OF assms] by (simp add: git_ok_def)

theorem refs_refine_history_witness:
  "map (\<lambda>l. (l_name l, l_old l, l_new l)) (t_reflog run_landed) = [(''refs/heads/main'', ''0'', ''a1'')]
     \<and> ref_map run_landed = replay run_ext (t_reflog run_landed) (\<lambda>_. None)"
  using refs_refine_history [OF run_reached] run_landed_rows by blast



text \<open>
  C7. The caps hold in every reachable repository: at most 256 tokens, 256 pins, 64 protected
  patterns, 64 open pushes, \<open>MAX_REFS\<close> refs and \<open>MAX_PENDING\<close> undelivered push events.
\<close>

theorem caps_hold:
  assumes "repo_reachable X (h, d)"
  shows "length (t_tokens d) \<le> 256 \<and> length (t_pins d) \<le> 256 \<and> length (t_protected d) \<le> 64
     \<and> open_pushes d \<le> 64 \<and> length (t_refs d) \<le> MAX_REFS \<and> int (length (t_push_events d)) \<le> MAX_PENDING"
  using reachable_git_ok [OF assms] by (simp add: git_ok_def repo_ok_def limits_ok_def)

theorem caps_hold_witness:
  "length (t_pins run_pinned) = 1 \<and> length (t_pins run_pinned) \<le> 256 \<and> length (t_refs run_pinned) \<le> MAX_REFS"
  using caps_hold [OF pinned_reached] pinned_rows(2) by blast



end
