(* ===== verification/Byte_Streams.thy ===== *)
theory Byte_Streams
  imports Errors
begin

text \<open>
  Shared pieces of the stream components: the loop with early return, slices cut into chunks, and
  results of loops that may not return.
\<close>

named_theorems stream

text \<open>A \<open>for\<close> loop whose body may return an error: the first error ends it.\<close>

fun fold_res :: "('b \<Rightarrow> 'a \<Rightarrow> 'e + 'a) \<Rightarrow> 'b list \<Rightarrow> 'a \<Rightarrow> 'e + 'a" where
  "fold_res f [] a = Inr a"
| "fold_res f (x # xs) a = (case f x a of Inl e \<Rightarrow> Inl e | Inr a' \<Rightarrow> fold_res f xs a')"

lemma fold_res_append [stream]:
  "fold_res f (xs @ ys) a = (case fold_res f xs a of Inl e \<Rightarrow> Inl e | Inr b \<Rightarrow> fold_res f ys b)"
  by (induction xs arbitrary: a) (auto split: sum.splits)

lemma fold_res_Inr: "(\<And>x a. x \<in> set xs \<Longrightarrow> f x a = Inr (g x a)) \<Longrightarrow> fold_res f xs a = Inr (fold g xs a)"
  by (induction xs arbitrary: a) auto

lemma fold_res_inv:
  assumes "fold_res f xs a = Inr b" and "P a" and "\<forall>x \<in> set xs. \<forall>a a'. P a \<longrightarrow> f x a = Inr a' \<longrightarrow> P a'"
  shows "P b"
  using assms
proof (induction xs arbitrary: a)
  case (Cons x xs)
  obtain a' where f: "f x a = Inr a'" and r: "fold_res f xs a' = Inr b"
    using Cons.prems(1) by (simp split: sum.splits)
  have "x \<in> set (x # xs)" by simp
  then have "P a'" using Cons.prems(3) Cons.prems(2) f by blast
  moreover have "\<forall>x \<in> set xs. \<forall>a a'. P a \<longrightarrow> f x a = Inr a' \<longrightarrow> P a'" using Cons.prems(3) unfolding list.set by blast
  ultimately show ?case using Cons.IH [OF r] by blast
qed (simp only: fold_res.simps sum.inject)

text \<open>\<open>slice::chunks(n)\<close> for positive \<open>n\<close>.\<close>

function chunks :: "nat \<Rightarrow> 'a list \<Rightarrow> 'a list list" where
  "chunks n xs = (if xs = [] \<or> n = 0 then [] else take n xs # chunks n (drop n xs))"
  by pat_completeness auto
termination by (relation "measure (\<lambda>(n, xs). length xs)") auto

declare chunks.simps [simp del]

lemma chunks_Nil [simp]: "chunks n [] = []"
  by (simp add: chunks.simps)

lemma chunks_eq: "0 < n \<Longrightarrow> xs \<noteq> [] \<Longrightarrow> chunks n xs = take n xs # chunks n (drop n xs)"
  by (subst chunks.simps) simp

lemma concat_chunks [stream]: "0 < n \<Longrightarrow> concat (chunks n xs) = xs"
proof (induction n xs rule: chunks.induct)
  case (1 n xs)
  then show ?case by (cases "xs = []") (simp_all add: chunks_eq)
qed

lemma chunks_bounds [stream]: "c \<in> set (chunks n xs) \<Longrightarrow> c \<noteq> [] \<and> length c \<le> n"
proof (induction n xs rule: chunks.induct)
  case (1 n xs)
  show ?case
  proof (cases "xs = [] \<or> n = 0")
    case True
    with 1 show ?thesis by (auto simp: chunks.simps [of n xs])
  next
    case False
    with 1 show ?thesis by (subst (asm) chunks.simps) auto
  qed
qed

end
