(* ===== verification/Packetline.thy ===== *)
theory Packetline
  imports Byte_Streams
begin

text \<open>
  Packet lines, from \<open>wire/mod.rs\<close>: the incremental reader, the writer, the sideband. The
  \<open>gix_packetline\<close> crate is a parameter: a record of its decoder and its encoders, with the laws
  of the packet-line format the code relies on. Every parser of the source is a loop over
  \<open>PktReader::next\<close>; \<open>pkt_loop\<close> is that loop, and its laws say that it returns on every input, that
  more bytes do not change what it returned, and what it does on an encoded sequence of packets.
\<close>

section \<open>Packets and the crate's interface\<close>

datatype pkt = PData string | PFlush | PDelim | PResponseEnd

text \<open>
  \<open>decode::streaming\<close> answers an error text, that the input is incomplete, or a packet and the
  number of bytes it took; \<open>lossy\<close> is the crate \<open>bstr\<close>'s display of bytes that may not be UTF-8.
\<close>

record pktio =
  pk_decode :: "string \<Rightarrow> string + (pkt \<times> nat) option"
  pk_data :: "string \<Rightarrow> string + string"
  pk_flush :: string
  pk_delim :: string
  pk_end :: string
  pk_error :: "string \<Rightarrow> string"
  pk_band :: "nat \<Rightarrow> string \<Rightarrow> string"
  lossy :: "string \<Rightarrow> string"

definition MAX_PKT_DATA :: nat where "MAX_PKT_DATA = 65516"
definition MAX_BAND_DATA :: nat where "MAX_BAND_DATA = 65515"

definition decodes :: "pktio \<Rightarrow> string \<Rightarrow> pkt \<Rightarrow> bool" where
  "decodes io e p \<longleftrightarrow> (\<forall>s. pk_decode io (e @ s) = Inr (Some (p, length e)))"

definition pktio_ok :: "pktio \<Rightarrow> bool" where
  "pktio_ok io \<longleftrightarrow>
     (\<forall>b. b \<noteq> [] \<longrightarrow> length b \<le> MAX_PKT_DATA \<longrightarrow> (\<exists>e. pk_data io b = Inr e \<and> decodes io e (PData b))) \<and>
     decodes io (pk_flush io) PFlush \<and> decodes io (pk_delim io) PDelim \<and> decodes io (pk_end io) PResponseEnd \<and>
     (\<forall>c b. length b \<le> MAX_BAND_DATA \<longrightarrow> pk_data io (char_of c # b) = Inr (pk_band io c b)) \<and>
     (\<forall>s p n t. pk_decode io s = Inr (Some (p, n)) \<longrightarrow> 0 < n \<and> n \<le> length s \<and> pk_decode io (s @ t) = Inr (Some (p, n))) \<and>
     (\<forall>s m t. pk_decode io s = Inl m \<longrightarrow> pk_decode io (s @ t) = Inl m) \<and>
     pk_decode io [] = Inr None \<and>
     (\<forall>b. (\<forall>c \<in> set b. byte_val c < 128) \<longrightarrow> lossy io b = b)"

section \<open>The reader\<close>

record pkt_reader =
  rd_buf :: string
  rd_pos :: nat

definition reader :: "string \<Rightarrow> pkt_reader" where
  "reader b = \<lparr>rd_buf = b, rd_pos = 0\<rparr>"

definition push :: "string \<Rightarrow> pkt_reader \<Rightarrow> pkt_reader" where
  "push bytes r = r\<lparr>rd_buf := rd_buf r @ bytes\<rparr>"

definition rest :: "pkt_reader \<Rightarrow> string" where
  "rest r = drop (rd_pos r) (rd_buf r)"

text \<open>The position never passes the end of the buffer, so the addition does not saturate.\<close>

definition next_pkt :: "pktio \<Rightarrow> pkt_reader \<Rightarrow> pkt_reader \<times> pkt option res" where
  "next_pkt io r =
     (case pk_decode io (rest r) of
        Inl m \<Rightarrow> (r, Inl (Protocol (''pkt-line: '' @ m)))
      | Inr None \<Rightarrow> (r, Inr None)
      | Inr (Some (p, used)) \<Rightarrow> (r\<lparr>rd_pos := rd_pos r + used\<rparr>, Inr (Some p)))"

definition remainder :: "pkt_reader \<Rightarrow> pkt_reader \<times> string" where
  "remainder r = (r\<lparr>rd_pos := length (rd_buf r)\<rparr>, rest r)"

text \<open>
  A loop over the packets. The body gets the state and a packet and returns an error, a result that
  ends the loop, or the next state; \<open>eof\<close> is the result when more bytes are needed.
\<close>

partial_function (option) pkt_loop ::
  "pktio \<Rightarrow> ('s \<Rightarrow> pkt \<Rightarrow> error + ('r + 's)) \<Rightarrow> ('s \<Rightarrow> error + 'r) \<Rightarrow> pkt_reader \<Rightarrow> 's \<Rightarrow> (pkt_reader \<times> (error + 'r)) option" where
  "pkt_loop io body eof r s =
     (case next_pkt io r of
        (r', Inl e) \<Rightarrow> Some (r', Inl e)
      | (r', Inr None) \<Rightarrow> Some (r', eof s)
      | (r', Inr (Some p)) \<Rightarrow>
          (case body s p of
             Inl e \<Rightarrow> Some (r', Inl e)
           | Inr (Inl x) \<Rightarrow> Some (r', Inr x)
           | Inr (Inr s') \<Rightarrow> pkt_loop io body eof r' s'))"

section \<open>The writer\<close>

text \<open>The bytes written so far are the state; the callers drop the writer on an error.\<close>

definition w_data :: "pktio \<Rightarrow> string \<Rightarrow> string \<Rightarrow> string res" where
  "w_data io b w =
     (if MAX_PKT_DATA < length b then Inl (Internal ''pkt-line over 65516 bytes'')
      else case pk_data io b of Inl e \<Rightarrow> Inl (Internal e) | Inr bytes \<Rightarrow> Inr (w @ bytes))"

definition w_text :: "pktio \<Rightarrow> string \<Rightarrow> string \<Rightarrow> string res" where
  "w_text io s w = (if s \<noteq> [] \<and> last s = LF then w_data io s w else w_data io (s @ [LF]) w)"

definition w_flush :: "pktio \<Rightarrow> string \<Rightarrow> string" where "w_flush io w = w @ pk_flush io"
definition w_delim :: "pktio \<Rightarrow> string \<Rightarrow> string" where "w_delim io w = w @ pk_delim io"
definition w_response_end :: "pktio \<Rightarrow> string \<Rightarrow> string" where "w_response_end io w = w @ pk_end io"

definition w_line :: "pktio \<Rightarrow> string \<Rightarrow> string \<Rightarrow> string" where
  "w_line io b w = (case w_data io b w of Inl _ \<Rightarrow> w @ pk_error io ''line too long'' | Inr w' \<Rightarrow> w')"

section \<open>The sideband\<close>

definition band_data :: "pktio \<Rightarrow> string \<Rightarrow> string \<Rightarrow> string" where
  "band_data io b w = fold (\<lambda>c w. w @ pk_band io 1 c) (chunks MAX_BAND_DATA b) w"

definition first_chunk :: "string \<Rightarrow> string" where
  "first_chunk s = (case chunks MAX_BAND_DATA s of [] \<Rightarrow> [] | c # _ \<Rightarrow> c)"

definition band_progress :: "pktio \<Rightarrow> string \<Rightarrow> string \<Rightarrow> string" where
  "band_progress io s w = w @ pk_band io 2 (first_chunk s)"

definition band_error :: "pktio \<Rightarrow> string \<Rightarrow> string \<Rightarrow> string" where
  "band_error io s w = w @ pk_band io 3 (first_chunk s)"

section \<open>Laws of the loop\<close>

lemma decodes_next:
  "decodes io e p \<Longrightarrow> rest r = e @ t \<Longrightarrow> next_pkt io r = (r\<lparr>rd_pos := rd_pos r + length e\<rparr>, Inr (Some p))"
  by (simp add: decodes_def next_pkt_def)

lemma rest_advance: "rest (r\<lparr>rd_pos := rd_pos r + n\<rparr>) = drop n (rest r)"
  by (simp add: rest_def add.commute)

lemma rest_push: "rd_pos r \<le> length (rd_buf r) \<Longrightarrow> rest (push bs r) = rest r @ bs"
  by (simp add: rest_def push_def)

lemma rest_reader [simp]: "rest (reader b) = b"
  by (simp add: rest_def reader_def)

lemma next_Some:
  assumes "pktio_ok io" and "next_pkt io r = (r', Inr (Some p))"
  shows "\<exists>n. 0 < n \<and> n \<le> length (rest r) \<and> pk_decode io (rest r) = Inr (Some (p, n)) \<and> r' = r\<lparr>rd_pos := rd_pos r + n\<rparr>"
  using assms by (auto simp: next_pkt_def pktio_ok_def split: sum.splits option.splits)

lemma next_shorter: "pktio_ok io \<Longrightarrow> next_pkt io r = (r', Inr (Some p)) \<Longrightarrow> length (rest r') < length (rest r)"
  using next_Some [of io r r' p] by (auto simp: rest_advance)

text \<open>Every call returns: each round takes at least one byte of what is left.\<close>

lemma pkt_loop_total: "pktio_ok io \<Longrightarrow> \<exists>y. pkt_loop io body eof r s = Some y"
proof (induction "length (rest r)" arbitrary: r s rule: less_induct)
  case less
  show ?case
    using less.hyps next_shorter less.prems
    by (subst pkt_loop.simps) (auto split: prod.splits sum.splits option.splits)
qed

text \<open>More bytes do not change a result that did not ask for more bytes.\<close>

lemma next_push:
  assumes "pktio_ok io" and "next_pkt io r = (r', y)" and "y \<noteq> Inr None" and "rd_pos r \<le> length (rd_buf r)"
  shows "next_pkt io (push bs r) = (push bs r', y) \<and> rd_pos r' \<le> length (rd_buf r')"
proof (cases "pk_decode io (rest r)")
  case (Inl m)
  then have "pk_decode io (rest r @ bs) = Inl m" using assms(1) by (simp add: pktio_ok_def)
  with Inl assms show ?thesis by (auto simp: next_pkt_def rest_push)
next
  case (Inr o')
  with assms obtain p n where o: "o' = Some (p, n)" by (cases o') (auto simp: next_pkt_def)
  then have "pk_decode io (rest r @ bs) = Inr (Some (p, n))" "n \<le> length (rest r)"
    using Inr assms(1) unfolding pktio_ok_def by blast+
  with Inr o assms show ?thesis by (auto simp: next_pkt_def rest_push) (auto simp: push_def rest_def)
qed

lemma pkt_loop_push:
  assumes "pktio_ok io" and "\<And>s. eof s \<noteq> y"
  shows "pkt_loop io body eof r s = Some (r', y) \<Longrightarrow> rd_pos r \<le> length (rd_buf r) \<Longrightarrow>
         pkt_loop io body eof (push bs r) s = Some (push bs r', y) \<and> rd_pos r' \<le> length (rd_buf r')"
proof (induction "length (rest r)" arbitrary: r s rule: less_induct)
  case less
  obtain r1 z where n: "next_pkt io r = (r1, z)" by (cases "next_pkt io r")
  have z: "z \<noteq> Inr None" using less.prems(1) assms(2) n by (subst (asm) pkt_loop.simps) auto
  note np = next_push [OF assms(1) n z less.prems(2), of bs]
  show ?case
  proof (cases z)
    case (Inl e)
    with less.prems n np show ?thesis by (subst (asm) pkt_loop.simps, subst pkt_loop.simps) auto
  next
    case (Inr o')
    with z obtain p where p: "z = Inr (Some p)" by (cases o') auto
    with next_shorter [OF assms(1)] n have "length (rest r1) < length (rest r)" by blast
    note ih = less.hyps [OF this]
    show ?thesis
      using less.prems n np p ih
      by (subst (asm) pkt_loop.simps, subst pkt_loop.simps) (auto split: sum.splits)
  qed
qed

section \<open>Encoded sequences of packets\<close>

definition pkt_sane :: "pkt \<Rightarrow> bool" where
  "pkt_sane p \<longleftrightarrow> (case p of PData b \<Rightarrow> b \<noteq> [] \<and> length b \<le> MAX_PKT_DATA | _ \<Rightarrow> True)"

definition pkt_bytes :: "pktio \<Rightarrow> pkt \<Rightarrow> string" where
  "pkt_bytes io p = (case p of PData b \<Rightarrow> (case pk_data io b of Inr e \<Rightarrow> e | Inl _ \<Rightarrow> [])
                     | PFlush \<Rightarrow> pk_flush io | PDelim \<Rightarrow> pk_delim io | PResponseEnd \<Rightarrow> pk_end io)"

definition pkts_bytes :: "pktio \<Rightarrow> pkt list \<Rightarrow> string" where
  "pkts_bytes io ps = concat (map (pkt_bytes io) ps)"

lemma pkts_bytes_simps [simp]:
  "pkts_bytes io [] = []" "pkts_bytes io (p # ps) = pkt_bytes io p @ pkts_bytes io ps"
  "pkts_bytes io (ps @ qs) = pkts_bytes io ps @ pkts_bytes io qs"
  by (simp_all add: pkts_bytes_def)

lemma decodes_pkt_bytes: "pktio_ok io \<Longrightarrow> pkt_sane p \<Longrightarrow> decodes io (pkt_bytes io p) p"
  by (cases p) (auto simp: pktio_ok_def pkt_sane_def pkt_bytes_def)

text \<open>The body run over a list of packets: an error or a result with the packets left, or a state.\<close>

fun run_body :: "('s \<Rightarrow> pkt \<Rightarrow> error + ('r + 's)) \<Rightarrow> pkt list \<Rightarrow> 's \<Rightarrow> ((error + 'r) \<times> pkt list) + 's" where
  "run_body body [] s = Inr s"
| "run_body body (p # ps) s =
     (case body s p of
        Inl e \<Rightarrow> Inl (Inl e, ps)
      | Inr (Inl x) \<Rightarrow> Inl (Inr x, ps)
      | Inr (Inr s') \<Rightarrow> run_body body ps s')"

lemma run_body_append:
  "run_body body (ps @ qs) s =
     (case run_body body ps s of Inl (y, left) \<Rightarrow> Inl (y, left @ qs) | Inr s' \<Rightarrow> run_body body qs s')"
  by (induction ps arbitrary: s) (auto split: sum.splits)

lemma pkt_loop_run:
  assumes "pktio_ok io"
  shows "\<forall>p \<in> set ps. pkt_sane p \<Longrightarrow> rest r = pkts_bytes io ps @ t \<Longrightarrow>
    (case run_body body ps s of
       Inl (y, left) \<Rightarrow> \<exists>r'. pkt_loop io body eof r s = Some (r', y) \<and> rest r' = pkts_bytes io left @ t
     | Inr s' \<Rightarrow> \<exists>r'. pkt_loop io body eof r s = pkt_loop io body eof r' s' \<and> rest r' = t)"
proof (induction ps arbitrary: r s)
  case (Cons p ps)
  let ?r = "r\<lparr>rd_pos := rd_pos r + length (pkt_bytes io p)\<rparr>"
  have n: "next_pkt io r = (?r, Inr (Some p))"
    using decodes_next decodes_pkt_bytes [OF assms, of p] Cons.prems by auto
  have rr: "rest ?r = pkts_bytes io ps @ t"
    using Cons.prems(2) by (simp only: rest_advance) simp
  show ?case
  proof (cases "body s p")
    case (Inl e)
    then show ?thesis using n rr by (subst pkt_loop.simps) simp
  next
    case (Inr x)
    show ?thesis
    proof (cases x)
      case (Inl y)
      then show ?thesis using n rr Inr by (subst pkt_loop.simps) simp
    next
      case inr: (Inr s')
      then have e: "pkt_loop io body eof r s = pkt_loop io body eof ?r s'"
        using n Inr by (subst pkt_loop.simps) simp
      have "run_body body (p # ps) s = run_body body ps s'" using Inr inr by simp
      then show ?thesis using Cons.IH [of ?r s', OF _ rr] Cons.prems(1) unfolding e by simp
    qed
  qed
qed auto

section \<open>The packet-line format\<close>

text \<open>
  The format as git's protocol documentation gives it, an instance for runs of the model: four
  hexadecimal digits count the line with themselves, 0000 to 0002 are the special packets, other
  lengths below 5 and above 65520 are invalid.
\<close>

definition git_decode :: "string \<Rightarrow> string + (pkt \<times> nat) option" where
  "git_decode s =
     (if length s < 4 then Inr None
      else case hex_acc 0 (take 4 s) of
             None \<Rightarrow> Inl ''invalid hex prefix''
           | Some n \<Rightarrow>
               if n = 0 then Inr (Some (PFlush, 4)) else if n = 1 then Inr (Some (PDelim, 4))
               else if n = 2 then Inr (Some (PResponseEnd, 4))
               else if n < 5 \<or> 65520 < n then Inl ''invalid line length''
               else if length s < n then Inr None
               else Inr (Some (PData (take (n - 4) (drop 4 s)), n)))"

definition git_data :: "string \<Rightarrow> string + string" where
  "git_data b = (if b = [] then Inl ''empty'' else if 65516 < length b then Inl ''too long'' else Inr (hex_pad4 (length b + 4) @ b))"

definition git_pktio :: pktio where
  "git_pktio =
     \<lparr>pk_decode = git_decode, pk_data = git_data, pk_flush = ''0000'', pk_delim = ''0001'', pk_end = ''0002'',
      pk_error = (\<lambda>m. hex_pad4 (length m + 8) @ ''ERR '' @ m),
      pk_band = (\<lambda>c b. hex_pad4 (length b + 5) @ char_of c # b), lossy = (\<lambda>b. b)\<rparr>"

lemma git_decode_special:
  "git_decode (''0000'' @ s) = Inr (Some (PFlush, 4))" "git_decode (''0001'' @ s) = Inr (Some (PDelim, 4))"
  "git_decode (''0002'' @ s) = Inr (Some (PResponseEnd, 4))"
  by (simp_all add: git_decode_def hex_val_def byte_val_def)

lemma git_decode_data:
  assumes "b \<noteq> []" "length b \<le> 65516"
  shows "git_decode (hex_pad4 (length b + 4) @ b @ s) = Inr (Some (PData b, length b + 4))"
proof -
  have "length (hex_pad4 (length b + 4)) = 4" using assms by simp
  moreover have "0 < length b" using assms by simp
  ultimately show ?thesis using assms by (simp add: git_decode_def)
qed

lemma git_decode_stable:
  "git_decode s = Inr (Some (p, n)) \<Longrightarrow> 0 < n \<and> n \<le> length s \<and> git_decode (s @ t) = Inr (Some (p, n))"
  "git_decode s = Inl m \<Longrightarrow> git_decode (s @ t) = Inl m"
  by (auto simp: git_decode_def split: if_splits option.splits)

lemma git_pktio_ok: "pktio_ok git_pktio"
  unfolding pktio_ok_def decodes_def MAX_PKT_DATA_def MAX_BAND_DATA_def
  using git_decode_stable git_decode_special git_decode_data
  by (auto simp: git_pktio_def git_data_def git_decode_def [of "[]"] add.commute)

end
