(* ===== verification/Wire_Parse.thy ===== *)
theory Wire_Parse
  imports Packetline Schema
begin

text \<open>
  The request parsers of \<open>wire/mod.rs\<close>: the receive-pack header and the protocol v2 commands, and
  from \<open>edge/mod.rs\<close> the loop that feeds the header parser from the request body. Object ids are
  their hexadecimal text; \<open>from_hex\<close> of the parameter \<open>ext\<close> is \<open>ObjectId::from_hex\<close>.
\<close>

section \<open>The receive header\<close>

record ref_command =
  rcmd_old :: string
  rcmd_new :: string
  rcmd_name :: string

record receive_caps =
  rc_report_status :: bool
  rc_report_status_v2 :: bool
  rc_side_band_64k :: bool
  rc_delete_refs :: bool
  rc_quiet :: bool
  rc_ofs_delta :: bool
  rc_atomic :: bool
  rc_agent :: "string option"
  rc_object_format :: hash_kind

record receive_header =
  rh_commands :: "ref_command list"
  rh_caps :: receive_caps
  rh_shallow :: "string list"

definition wire_oid :: "pktio \<Rightarrow> ext \<Rightarrow> string \<Rightarrow> string res" where
  "wire_oid io X hex = (case from_hex X hex of Inl _ \<Rightarrow> Inl (Protocol (''bad oid '' @ lossy io hex)) | Inr h \<Rightarrow> Inr h)"

definition format_of :: "pktio \<Rightarrow> string \<Rightarrow> hash_kind res" where
  "format_of io f =
     (if f = ''sha1'' then Inr Sha1 else if f = ''sha256'' then Inr Sha256
      else Inl (Protocol (''object-format '' @ lossy io f @ '' unsupported'')))"

definition no_caps :: receive_caps where
  "no_caps = \<lparr>rc_report_status = False, rc_report_status_v2 = False, rc_side_band_64k = False, rc_delete_refs = False,
     rc_quiet = False, rc_ofs_delta = False, rc_atomic = False, rc_agent = None, rc_object_format = Sha1\<rparr>"

definition set_cap :: "pktio \<Rightarrow> string \<Rightarrow> receive_caps \<Rightarrow> receive_caps res" where
  "set_cap io c caps =
     (if c = ''report-status'' then Inr (caps\<lparr>rc_report_status := True\<rparr>)
      else if c = ''report-status-v2'' then Inr (caps\<lparr>rc_report_status_v2 := True\<rparr>)
      else if c = ''side-band-64k'' then Inr (caps\<lparr>rc_side_band_64k := True\<rparr>)
      else if c = ''delete-refs'' then Inr (caps\<lparr>rc_delete_refs := True\<rparr>)
      else if c = ''quiet'' then Inr (caps\<lparr>rc_quiet := True\<rparr>)
      else if c = ''ofs-delta'' then Inr (caps\<lparr>rc_ofs_delta := True\<rparr>)
      else if c = ''atomic'' then Inr (caps\<lparr>rc_atomic := True\<rparr>)
      else if c = ''no-thin'' then Inr caps
      else if starts_with ''agent='' c then Inr (caps\<lparr>rc_agent := Some c\<rparr>)
      else case strip_prefix ''object-format='' c of
             Some f \<Rightarrow> (case format_of io f of Inl e \<Rightarrow> Inl e | Inr k \<Rightarrow> Inr (caps\<lparr>rc_object_format := k\<rparr>))
           | None \<Rightarrow> Inr caps)"

text \<open>One command line: the capabilities are read before the command is split.\<close>

definition command_of :: "pktio \<Rightarrow> ext \<Rightarrow> string \<Rightarrow> ref_command res" where
  "command_of io X line =
     (case split_once (CHR '' '') line of None \<Rightarrow> Inl (Protocol ''bad command'') | Some (old_hex, after) \<Rightarrow>
      case split_once (CHR '' '') after of None \<Rightarrow> Inl (Protocol ''bad command'') | Some (new_hex, name) \<Rightarrow>
      if name = [] then Inl (Protocol ''command without ref name'')
      else case wire_oid io X old_hex of Inl e \<Rightarrow> Inl e | Inr old \<Rightarrow>
           case wire_oid io X new_hex of Inl e \<Rightarrow> Inl e | Inr new \<Rightarrow>
           Inr \<lparr>rcmd_old = old, rcmd_new = new, rcmd_name = name\<rparr>)"

definition chomp :: "string \<Rightarrow> string" where
  "chomp d = (case strip_suffix [LF] d of Some s \<Rightarrow> s | None \<Rightarrow> d)"

text \<open>The state of the loop: the header so far and whether no command was read yet.\<close>

definition header_line :: "pktio \<Rightarrow> ext \<Rightarrow> receive_header \<times> bool \<Rightarrow> string \<Rightarrow> (receive_header \<times> bool) res" where
  "header_line io X st d0 =
     (let (h, first) = st; d = chomp d0
      in case strip_prefix ''shallow '' d of
           Some r \<Rightarrow> (case wire_oid io X r of Inl e \<Rightarrow> Inl e | Inr i \<Rightarrow> Inr (h\<lparr>rh_shallow := rh_shallow h @ [i]\<rparr>, first))
         | None \<Rightarrow>
             let cut = split_once NUL d
             in if cut \<noteq> None \<and> \<not> first then Inl (Protocol ''capabilities on a later command'')
                else let line = (case cut of Some (l, _) \<Rightarrow> l | None \<Rightarrow> d)
                     in case (case cut of Some (_, cs) \<Rightarrow> fold_res (set_cap io) (split_on (CHR '' '') cs) (rh_caps h)
                              | None \<Rightarrow> Inr (rh_caps h)) of
                          Inl e \<Rightarrow> Inl e
                        | Inr caps \<Rightarrow>
                            (case command_of io X line of
                               Inl e \<Rightarrow> Inl e
                             | Inr c \<Rightarrow> Inr (h\<lparr>rh_caps := caps, rh_commands := rh_commands h @ [c]\<rparr>, False)))"

definition header_body :: "pktio \<Rightarrow> ext \<Rightarrow> receive_header \<times> bool \<Rightarrow> pkt \<Rightarrow> error + (receive_header option + receive_header \<times> bool)" where
  "header_body io X st p =
     (case p of
        PFlush \<Rightarrow> Inr (Inl (Some (fst st)))
      | PData d \<Rightarrow> (case header_line io X st d of Inl e \<Rightarrow> Inl e | Inr st' \<Rightarrow> Inr (Inr st'))
      | _ \<Rightarrow> Inl (Protocol ''delim/response-end in receive header''))"

definition no_header :: receive_header where
  "no_header = \<lparr>rh_commands = [], rh_caps = no_caps, rh_shallow = []\<rparr>"

definition parse_receive_header :: "pktio \<Rightarrow> ext \<Rightarrow> pkt_reader \<Rightarrow> (pkt_reader \<times> receive_header option res) option" where
  "parse_receive_header io X r = pkt_loop io (header_body io X) (\<lambda>_. Inr None) r (no_header, True)"

section \<open>The request body\<close>

text \<open>
  \<open>BodyReader\<close> of the edge: the stream is the list of chunks the platform will deliver, a read
  error included; its end is the end of the list.
\<close>

record body_reader =
  bd_stream :: "(error + string) list"
  bd_buf :: string
  bd_eof :: bool
  bd_total :: nat

definition body_wrap :: "(error + string) list \<Rightarrow> body_reader" where
  "body_wrap s = \<lparr>bd_stream = s, bd_buf = [], bd_eof = False, bd_total = 0\<rparr>"

function fill :: "nat \<Rightarrow> body_reader \<Rightarrow> body_reader \<times> bool res" where
  "fill m b =
     (if length (bd_buf b) < m \<and> \<not> bd_eof b
      then (case bd_stream b of
              Inr c # s \<Rightarrow> fill m (b\<lparr>bd_stream := s, bd_total := sat64 (bd_total b + length c), bd_buf := bd_buf b @ c\<rparr>)
            | Inl e # s \<Rightarrow> (b\<lparr>bd_stream := s\<rparr>, Inl e)
            | [] \<Rightarrow> fill m (b\<lparr>bd_eof := True\<rparr>))
      else (b, Inr (m \<le> length (bd_buf b))))"
  by pat_completeness auto
termination by (relation "measure (\<lambda>(m, b). length (bd_stream b) + (if bd_eof b then 0 else 1))") auto

declare fill.simps [simp del]

definition consume :: "nat \<Rightarrow> body_reader \<Rightarrow> body_reader" where
  "consume n b = b\<lparr>bd_buf := drop (min n (length (bd_buf b))) (bd_buf b)\<rparr>"

definition unread :: "string \<Rightarrow> body_reader \<Rightarrow> body_reader" where
  "unread bytes b = (if bytes \<noteq> [] then b\<lparr>bd_buf := bytes @ bd_buf b\<rparr> else b)"

text \<open>What is still to be read of a stream without read errors.\<close>

definition pending :: "body_reader \<Rightarrow> string" where
  "pending b = bd_buf b @ concat (map (\<lambda>c. case c of Inr x \<Rightarrow> x | Inl _ \<Rightarrow> []) (bd_stream b))"

definition clean :: "body_reader \<Rightarrow> bool" where
  "clean b \<longleftrightarrow> list_all (\<lambda>c. case c of Inr _ \<Rightarrow> True | Inl _ \<Rightarrow> False) (bd_stream b) \<and> (bd_eof b \<longrightarrow> bd_stream b = [])"

lemma fill_clean:
  assumes "clean b"
  shows "\<exists>b' t. fill m b = (b', Inr t) \<and> clean b' \<and> pending b' = pending b \<and> length (bd_stream b') \<le> length (bd_stream b)
     \<and> (bd_buf b = [] \<longrightarrow> bd_buf b' \<noteq> [] \<longrightarrow> length (bd_stream b') < length (bd_stream b))
     \<and> (length (bd_buf b') < m \<longrightarrow> bd_stream b' = [])"
  using assms
proof (induction m b rule: fill.induct)
  case (1 m b)
  show ?case
  proof (cases "length (bd_buf b) < m \<and> \<not> bd_eof b")
    case False
    then show ?thesis using 1(3) by (subst fill.simps) (auto simp: clean_def)
  next
    case more: True
    show ?thesis
    proof (cases "bd_stream b")
      case Nil
      with 1(1) [OF more Nil] 1(3) more show ?thesis by (subst fill.simps) (auto simp: clean_def pending_def)
    next
      case (Cons c s)
      with 1(3) obtain x where c: "c = Inr x" by (auto simp: clean_def split: sum.splits)
      let ?b = "b\<lparr>bd_stream := s, bd_total := sat64 (bd_total b + length x), bd_buf := bd_buf b @ x\<rparr>"
      have "clean ?b" "pending ?b = pending b" using Cons c 1(3) by (auto simp: clean_def pending_def)
      with 1(2) [OF more Cons c] Cons c more show ?thesis
        by (subst fill.simps) (auto simp: le_Suc_eq)
    qed
  qed
qed

definition FILL_STEP :: nat where "FILL_STEP = 65536"
definition CMD_CAP :: nat where "CMD_CAP = 1048576"

text \<open>
  \<open>receive_header\<close> is \<open>read_receive_header\<close> here: the whole accumulated buffer is parsed again after each read. Not returning is
  None.
\<close>

partial_function (option) read_receive_header ::
  "pktio \<Rightarrow> ext \<Rightarrow> body_reader \<Rightarrow> string \<Rightarrow> (body_reader \<times> (receive_header \<times> string) res) option" where
  "read_receive_header io X b buf =
     (case parse_receive_header io X (push buf (reader [])) of
        None \<Rightarrow> None
      | Some (fresh, Inl e) \<Rightarrow> Some (b, Inl e)
      | Some (fresh, Inr (Some h)) \<Rightarrow> Some (b, Inr (h, snd (remainder fresh)))
      | Some (fresh, Inr None) \<Rightarrow>
          (case fill FILL_STEP b of
             (b1, Inl e) \<Rightarrow> Some (b1, Inl e)
           | (b1, Inr _) \<Rightarrow>
               if bd_buf b1 = [] then Some (b1, Inl (Protocol ''truncated receive header''))
               else (let buf' = buf @ bd_buf b1; b2 = consume (length (bd_buf b1)) b1
                     in if CMD_CAP < length buf' then Some (b2, Inl (Protocol ''receive header > 1 MiB''))
                        else read_receive_header io X b2 buf')))"

lemma reader_push: "push bs (push buf (reader [])) = reader (buf @ bs)" "push buf (reader []) = reader buf"
  by (simp_all add: push_def reader_def)

lemma parse_header_total: "pktio_ok io \<Longrightarrow> \<exists>r y. parse_receive_header io X (reader buf) = Some (r, y)"
  using pkt_loop_total by (auto simp: parse_receive_header_def)

lemma parse_header_more:
  assumes "pktio_ok io" and "parse_receive_header io X (reader buf) = Some (r, y)" and "y \<noteq> Inr None"
  shows "parse_receive_header io X (reader (buf @ bs)) = Some (push bs r, y) \<and> rest (push bs r) = rest r @ bs"
proof -
  have "parse_receive_header io X (push bs (reader buf)) = Some (push bs r, y) \<and> rd_pos r \<le> length (rd_buf r)"
    using pkt_loop_push [OF assms(1), of "\<lambda>_. Inr None" y "header_body io X" "reader buf" "(no_header, True)" r bs] assms(2,3)
    by (auto simp: parse_receive_header_def reader_def)
  then show ?thesis using rest_push by (simp add: push_def reader_def)
qed

text \<open>A read stops once the step is reached, so it brings at most the step and one chunk.\<close>

definition chunks_le :: "nat \<Rightarrow> body_reader \<Rightarrow> bool" where
  "chunks_le k b \<longleftrightarrow> list_all (\<lambda>c. case c of Inr x \<Rightarrow> length x \<le> k | Inl _ \<Rightarrow> True) (bd_stream b)"

lemma fill_bound:
  "fill m b = (b', y) \<Longrightarrow> chunks_le k b \<Longrightarrow> length (bd_buf b) \<le> m + k \<Longrightarrow> length (bd_buf b') \<le> m + k \<and> chunks_le k b'"
proof (induction m b rule: fill.induct)
  case (1 m b)
  show ?case
  proof (cases "length (bd_buf b) < m \<and> \<not> bd_eof b")
    case False
    with 1(3-) show ?thesis by (subst (asm) fill.simps) auto
  next
    case more: True
    show ?thesis
    proof (cases "bd_stream b")
      case Nil
      with 1(1) [OF more Nil] 1(3-) more show ?thesis by (subst (asm) fill.simps) (auto simp: chunks_le_def)
    next
      case (Cons c s)
      show ?thesis
      proof (cases c)
        case (Inl e)
        with Cons 1(3-) more show ?thesis by (subst (asm) fill.simps) (auto simp: chunks_le_def)
      next
        case (Inr x)
        with 1(2) [OF more Cons Inr] Cons 1(3-) more show ?thesis by (subst (asm) fill.simps) (auto simp: chunks_le_def)
      qed
    qed
  qed
qed

definition header_answer :: "receive_header option res \<Rightarrow> string \<Rightarrow> string \<Rightarrow> (receive_header \<times> string) res \<Rightarrow> bool" where
  "header_answer y left pend out \<longleftrightarrow>
     (case y of
        Inl e \<Rightarrow> out = Inl e
      | Inr None \<Rightarrow> out = Inl (Protocol ''truncated receive header'')
      | Inr (Some h) \<Rightarrow> \<exists>got. out = Inr (h, got) \<and> got @ pend = left)"

text \<open>
  The cap is compared after a read and before the parse: \<open>over_cap\<close> describes the buffer that
  tripped it, a part the parser wanted more of and one read.
\<close>

definition over_cap :: "pktio \<Rightarrow> ext \<Rightarrow> nat \<Rightarrow> string \<Rightarrow> bool" where
  "over_cap io X k all \<longleftrightarrow>
     (\<exists>seen more more' r. all = seen @ more @ more' \<and> parse_receive_header io X (reader seen) = Some (r, Inr None)
        \<and> CMD_CAP < length (seen @ more) \<and> length more \<le> FILL_STEP + k)"

lemma read_header_chunks:
  assumes "pktio_ok io"
  shows "clean b \<Longrightarrow> chunks_le k b \<Longrightarrow> length (bd_buf b) \<le> FILL_STEP + k \<Longrightarrow>
    parse_receive_header io X (reader (buf @ pending b)) = Some (r, y) \<Longrightarrow>
    \<exists>b' out. read_receive_header io X b buf = Some (b', out) \<and>
      (out = Inl (Protocol ''receive header > 1 MiB'') \<and> over_cap io X k (buf @ pending b) \<or> header_answer y (rest r) (pending b') out)"
proof (induction "2 * length (bd_stream b) + (if bd_buf b = [] then 0 else 1)" arbitrary: b buf rule: less_induct)
  case less
  obtain r1 y1 where p: "parse_receive_header io X (reader buf) = Some (r1, y1)" using parse_header_total [OF assms] by blast
  show ?case
  proof (cases "y1 = Inr None")
    case False
    then have "r = push (pending b) r1" "y = y1" "rest r = rest r1 @ pending b"
      using parse_header_more [OF assms p False, of "pending b"] less.prems(4) by auto
    with p False show ?thesis
      by (subst read_receive_header.simps) (auto simp: reader_push header_answer_def remainder_def split: sum.splits option.splits)
  next
    case none: True
    obtain b1 t where f: "fill FILL_STEP b = (b1, Inr t)" "clean b1" "pending b1 = pending b"
      "length (bd_stream b1) \<le> length (bd_stream b)"
      "bd_buf b = [] \<longrightarrow> bd_buf b1 \<noteq> [] \<longrightarrow> length (bd_stream b1) < length (bd_stream b)"
      "length (bd_buf b1) < FILL_STEP \<longrightarrow> bd_stream b1 = []"
      using fill_clean [OF less.prems(1), of FILL_STEP] by blast
    note fb = fill_bound [OF f(1) less.prems(2,3)]
    show ?thesis
    proof (cases "bd_buf b1 = []")
      case True
      then have "bd_stream b1 = []" using f(6) by (simp add: FILL_STEP_def)
      with True f(3) have "pending b = []" by (simp add: pending_def)
      with less.prems(4) p none have "y = Inr None" by simp
      with True f p none show ?thesis
        by (subst read_receive_header.simps) (auto simp: reader_push header_answer_def)
    next
      case False
      let ?b = "consume (length (bd_buf b1)) b1" and ?buf = "buf @ bd_buf b1"
      have b2: "clean ?b" "bd_buf ?b = []" "bd_stream ?b = bd_stream b1" "?buf @ pending ?b = buf @ pending b" "chunks_le k ?b"
        using f(2,3) fb by (simp_all add: consume_def clean_def pending_def chunks_le_def)
      have over: "over_cap io X k (buf @ pending b)" if "CMD_CAP < length ?buf"
        unfolding over_cap_def
        using that p none fb b2(4) by (intro exI [of _ buf] exI [of _ "bd_buf b1"] exI [of _ "pending ?b"] exI [of _ r1]) simp
      have "read_receive_header io X b buf =
          (if CMD_CAP < length ?buf then Some (?b, Inl (Protocol ''receive header > 1 MiB'')) else read_receive_header io X ?b ?buf)"
        using f(1) p none False by (subst read_receive_header.simps) (simp add: reader_push Let_def)
      moreover have "2 * length (bd_stream ?b) + (if bd_buf ?b = [] then 0 else 1) < 2 * length (bd_stream b) + (if bd_buf b = [] then 0 else 1)"
        using b2 f(4,5) False by auto
      note less.hyps [OF this b2(1) b2(5), of ?buf]
      ultimately show ?thesis using b2(2,4) over less.prems(4) by (cases "CMD_CAP < length ?buf") (simp_all del: append_assoc)
    qed
  qed
qed

text \<open>It returns on every body, with read errors too.\<close>

lemma fill_less:
  "fill m b = (b', Inr t) \<Longrightarrow> length (bd_stream b') \<le> length (bd_stream b) \<and> (bd_buf b = [] \<longrightarrow> bd_buf b' \<noteq> [] \<longrightarrow> length (bd_stream b') < length (bd_stream b))"
proof (induction m b rule: fill.induct)
  case (1 m b)
  show ?case
  proof (cases "length (bd_buf b) < m \<and> \<not> bd_eof b")
    case False
    with 1(3) show ?thesis by (subst (asm) fill.simps) auto
  next
    case more: True
    show ?thesis
    proof (cases "bd_stream b")
      case Nil
      with 1(1) [OF more Nil] 1(3) more show ?thesis by (subst (asm) fill.simps) auto
    next
      case (Cons c s)
      with 1(2) [OF more Cons] 1(3) more show ?thesis
        by (cases c; subst (asm) fill.simps) (auto simp: le_Suc_eq)
    qed
  qed
qed

lemma read_header_total:
  assumes "pktio_ok io"
  shows "\<exists>b' out. read_receive_header io X b buf = Some (b', out)"
proof (induction "2 * length (bd_stream b) + (if bd_buf b = [] then 0 else 1)" arbitrary: b buf rule: less_induct)
  case less
  obtain r y where p: "parse_receive_header io X (reader buf) = Some (r, y)" using parse_header_total [OF assms] by blast
  show ?case
  proof (cases "\<exists>b1 t. y = Inr None \<and> fill FILL_STEP b = (b1, Inr t) \<and> bd_buf b1 \<noteq> []")
    case False
    with p show ?thesis
      by (subst read_receive_header.simps) (auto simp: reader_push split: sum.splits option.splits prod.splits)
  next
    case True
    then obtain b1 t where f: "y = Inr None" "fill FILL_STEP b = (b1, Inr t)" "bd_buf b1 \<noteq> []" by blast
    let ?b = "consume (length (bd_buf b1)) b1"
    have "2 * length (bd_stream ?b) + (if bd_buf ?b = [] then 0 else 1) < 2 * length (bd_stream b) + (if bd_buf b = [] then 0 else 1)"
      using fill_less [OF f(2)] f(3) by (auto simp: consume_def)
    from less.hyps [OF this, of "buf @ bd_buf b1"] f p show ?thesis
      by (subst read_receive_header.simps) (auto simp: reader_push Let_def)
  qed
qed

end
