(* ===== verification/Wire_Command.thy ===== *)
theory Wire_Command
  imports Wire_Parse
begin

text \<open>The protocol v2 commands of \<open>wire/mod.rs\<close>: \<open>ls-refs\<close> and \<open>fetch\<close> with their arguments.\<close>

datatype fetch_filter = BlobNone | BlobLimit nat

record ls_refs_args =
  lr_symrefs :: bool
  lr_peel :: bool
  lr_unborn :: bool
  lr_prefixes :: "string list"
  lr_format :: hash_kind

record fetch_args =
  fa_wants :: "string list"
  fa_want_refs :: "string list"
  fa_haves :: "string list"
  fa_done :: bool
  fa_thin_pack :: bool
  fa_no_progress :: bool
  fa_include_tag :: bool
  fa_ofs_delta :: bool
  fa_deepen :: "nat option"
  fa_deepen_since :: "nat option"
  fa_deepen_not :: "string list"
  fa_deepen_relative :: bool
  fa_shallow :: "string list"
  fa_filter :: "fetch_filter option"
  fa_packfile_uris :: "string list option"
  fa_format :: hash_kind

datatype v2_command = LsRefs ls_refs_args | Fetch fetch_args

definition bad :: "pktio \<Rightarrow> string \<Rightarrow> string \<Rightarrow> error" where
  "bad io what x = Protocol (what @ '': unknown argument '' @ lossy io x)"

text \<open>Bytes that are not UTF-8 hold no digit, so the two failures of the source are one here.\<close>

definition num :: "string \<Rightarrow> nat option" where
  "num b = parse_unsigned U64_MAX b"

definition ls_refs_arg :: "pktio \<Rightarrow> string \<Rightarrow> ls_refs_args \<Rightarrow> ls_refs_args res" where
  "ls_refs_arg io l a =
     (if l = ''symrefs'' then Inr (a\<lparr>lr_symrefs := True\<rparr>)
      else if l = ''peel'' then Inr (a\<lparr>lr_peel := True\<rparr>)
      else if l = ''unborn'' then Inr (a\<lparr>lr_unborn := True\<rparr>)
      else if 32 \<le> length (lr_prefixes a) then Inl (bad io ''ls-refs'' ''too many ref-prefix'')
      else case strip_prefix ''ref-prefix '' l of
             None \<Rightarrow> Inl (bad io ''ls-refs'' l)
           | Some p \<Rightarrow> Inr (a\<lparr>lr_prefixes := lr_prefixes a @ [p]\<rparr>))"

definition parse_ls_refs :: "pktio \<Rightarrow> string list \<Rightarrow> hash_kind \<Rightarrow> ls_refs_args res" where
  "parse_ls_refs io args fmt =
     fold_res (ls_refs_arg io) args \<lparr>lr_symrefs = False, lr_peel = False, lr_unborn = False, lr_prefixes = [], lr_format = fmt\<rparr>"

definition no_fetch :: "hash_kind \<Rightarrow> fetch_args" where
  "no_fetch fmt = \<lparr>fa_wants = [], fa_want_refs = [], fa_haves = [], fa_done = False, fa_thin_pack = False, fa_no_progress = False,
     fa_include_tag = False, fa_ofs_delta = False, fa_deepen = None, fa_deepen_since = None, fa_deepen_not = [],
     fa_deepen_relative = False, fa_shallow = [], fa_filter = None, fa_packfile_uris = None, fa_format = fmt\<rparr>"

definition with_oid :: "pktio \<Rightarrow> ext \<Rightarrow> string \<Rightarrow> (string \<Rightarrow> fetch_args) \<Rightarrow> fetch_args res" where
  "with_oid io X v f = (case wire_oid io X v of Inl e \<Rightarrow> Inl e | Inr i \<Rightarrow> Inr (f i))"

definition fetch_arg :: "pktio \<Rightarrow> ext \<Rightarrow> string \<Rightarrow> fetch_args \<Rightarrow> fetch_args res" where
  "fetch_arg io X l f =
     (let (k, v) = (case split_once (CHR '' '') l of Some kv \<Rightarrow> kv | None \<Rightarrow> (l, []))
      in if k = ''want'' then with_oid io X v (\<lambda>i. f\<lparr>fa_wants := fa_wants f @ [i]\<rparr>)
      else if k = ''want-ref'' then if v = [] then Inl (bad io ''want-ref'' v) else Inr (f\<lparr>fa_want_refs := fa_want_refs f @ [v]\<rparr>)
      else if k = ''have'' then with_oid io X v (\<lambda>i. f\<lparr>fa_haves := fa_haves f @ [i]\<rparr>)
      else if k = ''shallow'' then with_oid io X v (\<lambda>i. f\<lparr>fa_shallow := fa_shallow f @ [i]\<rparr>)
      else if k = ''done'' then Inr (f\<lparr>fa_done := True\<rparr>)
      else if k = ''thin-pack'' then Inr (f\<lparr>fa_thin_pack := True\<rparr>)
      else if k = ''no-progress'' then Inr (f\<lparr>fa_no_progress := True\<rparr>)
      else if k = ''include-tag'' then Inr (f\<lparr>fa_include_tag := True\<rparr>)
      else if k = ''ofs-delta'' then Inr (f\<lparr>fa_ofs_delta := True\<rparr>)
      else if k = ''deepen'' then
        (case num v of
           Some n \<Rightarrow> if n \<le> U32_MAX \<and> 0 < n then Inr (f\<lparr>fa_deepen := Some n\<rparr>) else Inl (bad io ''deepen'' v)
         | None \<Rightarrow> Inl (bad io ''deepen'' v))
      else if k = ''deepen-since'' then
        (case num v of
           Some n \<Rightarrow> if int n \<le> I64_MAX then Inr (f\<lparr>fa_deepen_since := Some n\<rparr>) else Inl (bad io ''deepen-since'' v)
         | None \<Rightarrow> Inl (bad io ''deepen-since'' v))
      else if k = ''deepen-not'' then if v = [] then Inl (bad io ''deepen-not'' v) else Inr (f\<lparr>fa_deepen_not := fa_deepen_not f @ [v]\<rparr>)
      else if k = ''deepen-relative'' then Inr (f\<lparr>fa_deepen_relative := True\<rparr>)
      else if k = ''no-done'' then Inr f
      else if k = ''packfile-uris'' then
        if fa_packfile_uris f \<noteq> None then Inl (bad io ''packfile-uris'' v)
        else Inr (f\<lparr>fa_packfile_uris := Some (filter (\<lambda>s. s \<noteq> []) (split_on (CHR '','') v))\<rparr>)
      else if k = ''filter'' \<and> v = ''blob:none'' then Inr (f\<lparr>fa_filter := Some BlobNone\<rparr>)
      else if k = ''filter'' then
        (case Option.bind (strip_prefix ''blob:limit='' v) num of
           Some n \<Rightarrow> Inr (f\<lparr>fa_filter := Some (BlobLimit n)\<rparr>)
         | None \<Rightarrow> Inl (bad io ''filter'' v))
      else Inl (bad io ''fetch'' k))"

definition fetch_checks :: "fetch_args \<Rightarrow> fetch_args res" where
  "fetch_checks f =
     (if fa_deepen f \<noteq> None \<and> (fa_deepen_since f \<noteq> None \<or> fa_deepen_not f \<noteq> [])
      then Inl (Protocol ''deepen and deepen-since (or deepen-not) cannot be used together'')
      else if fa_deepen_since f \<noteq> None \<and> fa_deepen_not f \<noteq> []
      then Inl (Protocol ''deepen-since and deepen-not cannot be used together'')
      else if fa_wants f = [] \<and> fa_want_refs f = [] then Inl (Protocol ''fetch: no want lines'')
      else Inr f)"

definition parse_fetch :: "pktio \<Rightarrow> ext \<Rightarrow> string list \<Rightarrow> hash_kind \<Rightarrow> fetch_args res" where
  "parse_fetch io X args fmt = (case fold_res (fetch_arg io X) args (no_fetch fmt) of Inl e \<Rightarrow> Inl e | Inr f \<Rightarrow> fetch_checks f)"

section \<open>The command\<close>

record v2_state =
  v2_cmd :: "string option"
  v2_args :: "string list"
  v2_in_args :: bool
  v2_format :: hash_kind

definition v2_line :: "pktio \<Rightarrow> v2_state \<Rightarrow> string \<Rightarrow> v2_state res" where
  "v2_line io s d0 =
     (let d = chomp d0
      in if v2_in_args s then Inr (s\<lparr>v2_args := v2_args s @ [d]\<rparr>)
         else case strip_prefix ''command='' d of
           Some c \<Rightarrow> if v2_cmd s \<noteq> None then Inl (Protocol ''duplicate command line'') else Inr (s\<lparr>v2_cmd := Some c\<rparr>)
         | None \<Rightarrow>
             (case strip_prefix ''object-format='' d of
                Some f \<Rightarrow> (case format_of io f of Inl e \<Rightarrow> Inl e | Inr k \<Rightarrow> Inr (s\<lparr>v2_format := k\<rparr>))
              | None \<Rightarrow>
                  if starts_with ''agent='' d \<or> starts_with ''session-id='' d then Inr s
                  else Inl (Protocol (''unexpected pre-delim line '' @ lossy io d))))"

definition v2_body :: "pktio \<Rightarrow> v2_state \<Rightarrow> pkt \<Rightarrow> error + (v2_state + v2_state)" where
  "v2_body io s p =
     (case p of
        PResponseEnd \<Rightarrow> Inl (Protocol ''truncated v2 command'')
      | PFlush \<Rightarrow> Inr (Inl s)
      | PDelim \<Rightarrow> Inr (Inr (s\<lparr>v2_in_args := True\<rparr>))
      | PData d \<Rightarrow> (case v2_line io s d of Inl e \<Rightarrow> Inl e | Inr s' \<Rightarrow> Inr (Inr s')))"

definition v2_start :: v2_state where
  "v2_start = \<lparr>v2_cmd = None, v2_args = [], v2_in_args = False, v2_format = Sha1\<rparr>"

definition v2_command :: "pktio \<Rightarrow> ext \<Rightarrow> v2_state \<Rightarrow> v2_command res" where
  "v2_command io X s =
     (if v2_cmd s = Some ''ls-refs'' then (case parse_ls_refs io (v2_args s) (v2_format s) of Inl e \<Rightarrow> Inl e | Inr a \<Rightarrow> Inr (LsRefs a))
      else if v2_cmd s = Some ''fetch'' then (case parse_fetch io X (v2_args s) (v2_format s) of Inl e \<Rightarrow> Inl e | Inr f \<Rightarrow> Inr (Fetch f))
      else Inl (Protocol ''unknown command''))"

definition parse_v2_command :: "pktio \<Rightarrow> ext \<Rightarrow> string \<Rightarrow> v2_command res option" where
  "parse_v2_command io X body =
     map_option (\<lambda>(_, y). case y of Inl e \<Rightarrow> Inl e | Inr s \<Rightarrow> v2_command io X s)
       (pkt_loop io (v2_body io) (\<lambda>_. Inl (Protocol ''truncated v2 command'')) (push body (reader [])) v2_start)"

section \<open>What a parsed command satisfies\<close>

lemma prefixes_bound: "parse_ls_refs io args fmt = Inr a \<Longrightarrow> length (lr_prefixes a) \<le> 32 \<and> lr_format a = fmt"
  unfolding parse_ls_refs_def
  by (erule fold_res_inv) (auto simp: ls_refs_arg_def split: if_splits option.splits)

text \<open>The arguments a fetch keeps are those of well-formed lines.\<close>

definition fetch_fits :: "ext \<Rightarrow> fetch_args \<Rightarrow> bool" where
  "fetch_fits X f \<longleftrightarrow>
     (\<forall>i \<in> set (fa_wants f) \<union> set (fa_haves f) \<union> set (fa_shallow f). \<exists>v. from_hex X v = Inr i) \<and>
     [] \<notin> set (fa_want_refs f) \<and> [] \<notin> set (fa_deepen_not f) \<and>
     (case fa_deepen f of None \<Rightarrow> True | Some n \<Rightarrow> 0 < n \<and> n \<le> U32_MAX) \<and>
     (case fa_deepen_since f of None \<Rightarrow> True | Some n \<Rightarrow> int n \<le> I64_MAX)"

definition all_res :: "('a \<Rightarrow> bool) \<Rightarrow> 'e + 'a \<Rightarrow> bool" where
  "all_res P y \<longleftrightarrow> (case y of Inl _ \<Rightarrow> True | Inr r \<Rightarrow> P r)"

lemma all_res_simps [simp]: "all_res P (Inl e)" "all_res P (Inr r) = P r"
  by (simp_all add: all_res_def)

lemma all_res_keyword: "all_res P x \<Longrightarrow> all_res P y \<Longrightarrow> all_res P (if k = c then x else y)"
  by simp

lemma fetch_arg_fits:
  assumes "fetch_fits X f"
  shows "all_res (fetch_fits X) (fetch_arg io X l f)"
proof -
  obtain k v where kv: "(case split_once (CHR '' '') l of Some kv \<Rightarrow> kv | None \<Rightarrow> (l, [])) = (k, v)" by fastforce
  have upd: "from_hex X v = Inr i \<Longrightarrow> fetch_fits X (f\<lparr>fa_wants := fa_wants f @ [i]\<rparr>)"
    "from_hex X v = Inr i \<Longrightarrow> fetch_fits X (f\<lparr>fa_haves := fa_haves f @ [i]\<rparr>)"
    "from_hex X v = Inr i \<Longrightarrow> fetch_fits X (f\<lparr>fa_shallow := fa_shallow f @ [i]\<rparr>)" for i
    using assms by (auto simp: fetch_fits_def)
  have upd2: "v \<noteq> [] \<Longrightarrow> fetch_fits X (f\<lparr>fa_want_refs := fa_want_refs f @ [v]\<rparr>)"
    "v \<noteq> [] \<Longrightarrow> fetch_fits X (f\<lparr>fa_deepen_not := fa_deepen_not f @ [v]\<rparr>)"
    "0 < n \<Longrightarrow> n \<le> U32_MAX \<Longrightarrow> fetch_fits X (f\<lparr>fa_deepen := Some n\<rparr>)"
    "int n \<le> I64_MAX \<Longrightarrow> fetch_fits X (f\<lparr>fa_deepen_since := Some n\<rparr>)"
    "fetch_fits X (f\<lparr>fa_filter := ff\<rparr>)" "fetch_fits X (f\<lparr>fa_packfile_uris := pu\<rparr>)" for n ff pu
    using assms by (simp_all add: fetch_fits_def)
  have upd3: "fetch_fits X (f\<lparr>fa_done := True\<rparr>)" "fetch_fits X (f\<lparr>fa_thin_pack := True\<rparr>)" "fetch_fits X (f\<lparr>fa_no_progress := True\<rparr>)"
    "fetch_fits X (f\<lparr>fa_include_tag := True\<rparr>)" "fetch_fits X (f\<lparr>fa_ofs_delta := True\<rparr>)" "fetch_fits X (f\<lparr>fa_deepen_relative := True\<rparr>)"
    using assms by (simp_all add: fetch_fits_def)
  show ?thesis
    unfolding fetch_arg_def kv Let_def prod.case with_oid_def wire_oid_def
    by (intro all_res_keyword [where k = k]) (simp_all add: assms upd upd2 upd3 split: option.splits sum.splits)
qed

lemma parse_fetch_fits: "parse_fetch io X args fmt = Inr f \<Longrightarrow> fetch_fits X f \<and> fetch_checks f = Inr f"
proof -
  assume "parse_fetch io X args fmt = Inr f"
  then obtain g where g: "fold_res (fetch_arg io X) args (no_fetch fmt) = Inr g" "fetch_checks g = Inr f"
    by (auto simp: parse_fetch_def split: sum.splits)
  have "fetch_fits X g"
    using g(1)
  proof (rule fold_res_inv)
    show "\<forall>l \<in> set args. \<forall>f f'. fetch_fits X f \<longrightarrow> fetch_arg io X l f = Inr f' \<longrightarrow> fetch_fits X f'"
      using fetch_arg_fits by (metis all_res_simps(2))
  qed (simp add: no_fetch_def fetch_fits_def)
  with g(2) show ?thesis by (auto simp: fetch_checks_def split: if_splits)
qed

end
