(* ===== verification/Wire_Write.thy ===== *)
theory Wire_Write
  imports Wire_Command
begin

text \<open>
  The response writers of \<open>wire/mod.rs\<close>: advertisements, the \<open>ls-refs\<close> reply, the report of a
  push, the sections before a pack.
\<close>

section \<open>Advertisements\<close>

record adv_row =
  ar_name :: string
  ar_target :: string
  ar_peeled :: "string option"

definition AGENT :: string where "AGENT = ''agent=git-edge/0.1''"

definition write_capability_advertisement_v2 :: "pktio \<Rightarrow> hash_kind list \<Rightarrow> string \<Rightarrow> string" where
  "write_capability_advertisement_v2 io formats w =
     w_flush io (fold (w_line io) (map (\<lambda>f. ''object-format='' @ kind_name f @ [LF]) formats)
       (fold (w_line io) (map (\<lambda>l. l @ [LF]) [''version 2'', AGENT, ''ls-refs=unborn'', ''fetch=shallow filter packfile-uris'']) w))"

definition wanted :: "ls_refs_args \<Rightarrow> string \<Rightarrow> bool" where
  "wanted a n \<longleftrightarrow> lr_prefixes a = [] \<or> list_ex (\<lambda>p. starts_with p n) (lr_prefixes a)"

definition peel_attr :: "ls_refs_args \<Rightarrow> adv_row \<Rightarrow> string" where
  "peel_attr a r = (if lr_peel a then (case ar_peeled r of Some p \<Rightarrow> '' peeled:'' @ p | None \<Rightarrow> []) else [])"

definition find_ref :: "string \<Rightarrow> adv_row list \<Rightarrow> adv_row option" where
  "find_ref h refs = find (\<lambda>r. ar_name r = h) refs"

text \<open>Bytes that come from the database are UTF-8, which \<open>as_bstr\<close> prints unchanged.\<close>

definition ls_head_lines :: "ls_refs_args \<Rightarrow> string option \<Rightarrow> adv_row list \<Rightarrow> string list" where
  "ls_head_lines a head refs =
     (case head of
        None \<Rightarrow> []
      | Some h \<Rightarrow>
          if \<not> wanted a ''HEAD'' then []
          else (case find_ref h refs of
                  Some r \<Rightarrow> [ar_target r @ '' HEAD'' @ (if lr_symrefs a then '' symref-target:'' @ h else []) @ peel_attr a r @ [LF]]
                | None \<Rightarrow> if lr_unborn a then [''unborn HEAD symref-target:'' @ h @ [LF]] else []))"

definition ls_ref_lines :: "ls_refs_args \<Rightarrow> adv_row list \<Rightarrow> string list" where
  "ls_ref_lines a refs =
     map (\<lambda>r. ar_target r @ '' '' @ ar_name r @ peel_attr a r @ [LF]) (filter (\<lambda>r. wanted a (ar_name r)) refs)"

definition write_ls_refs :: "pktio \<Rightarrow> ls_refs_args \<Rightarrow> string option \<Rightarrow> adv_row list \<Rightarrow> string \<Rightarrow> string" where
  "write_ls_refs io a head refs w =
     w_flush io (fold (w_line io) (ls_ref_lines a refs) (fold (w_line io) (ls_head_lines a head refs) w))"

datatype service = UploadPack bool | ReceivePack

definition join :: "string \<Rightarrow> string list \<Rightarrow> string" where
  "join sep ws = (case ws of [] \<Rightarrow> [] | x # xs \<Rightarrow> x @ concat (map (\<lambda>y. sep @ y) xs))"

definition service_caps :: "service \<Rightarrow> hash_kind list \<Rightarrow> string \<times> string" where
  "service_caps service formats =
     (let fmt = join '' '' (map (\<lambda>f. ''object-format='' @ kind_name f) formats)
      in case service of
           UploadPack _ \<Rightarrow> (''git-upload-pack'', fmt @ '' '' @ AGENT)
         | ReceivePack \<Rightarrow> (''git-receive-pack'', ''report-status delete-refs side-band-64k quiet ofs-delta atomic '' @ fmt @ '' '' @ AGENT))"

text \<open>The lines of the refs: HEAD's first, the capabilities on the first line, peeled values after theirs.\<close>

definition v0_rows :: "string option \<Rightarrow> adv_row list \<Rightarrow> (string \<times> string \<times> string option) list" where
  "v0_rows head refs =
     (case Option.bind head (\<lambda>h. find_ref h refs) of Some r \<Rightarrow> [(ar_target r, ''HEAD'', None)] | None \<Rightarrow> [])
     @ map (\<lambda>r. (ar_target r, ar_name r, ar_peeled r)) refs"

fun v0_lines :: "string \<Rightarrow> bool \<Rightarrow> (string \<times> string \<times> string option) list \<Rightarrow> string list" where
  "v0_lines caps first [] = []"
| "v0_lines caps first ((i, n, peeled) # rows) =
     (i @ '' '' @ n @ (if first then NUL # caps else []) @ [LF])
     # (case peeled of Some p \<Rightarrow> [p @ '' '' @ n @ ''^{}'' @ [LF]] | None \<Rightarrow> []) @ v0_lines caps False rows"

text \<open>None is the index panic on an empty list of formats; \<open>null\<close> is the text of the null id.\<close>

definition write_advertisement_v0 ::
  "pktio \<Rightarrow> (hash_kind \<Rightarrow> string) \<Rightarrow> service \<Rightarrow> string option \<Rightarrow> adv_row list \<Rightarrow> hash_kind list \<Rightarrow> string \<Rightarrow> string option" where
  "write_advertisement_v0 io null service head refs formats w =
     (let (name, caps) = service_caps service formats;
          w1 = w_flush io (w_line io (''# service='' @ name @ [LF]) w);
          w2 = (if service = UploadPack True then w_line io (''version 1'' @ [LF]) w1 else w1);
          rows = v0_rows head refs;
          w3 = fold (w_line io) (v0_lines caps True rows) w2
      in if rows = []
         then (case formats of
                 [] \<Rightarrow> None
               | f # _ \<Rightarrow> Some (w_flush io (w_line io (null f @ '' capabilities^{}'' @ [NUL] @ caps @ [LF]) w3)))
         else Some (w_flush io w3))"

section \<open>The report of a push\<close>

datatype ref_result = RefOk string | RefNg string string

definition ascii_graphic :: "char \<Rightarrow> bool" where
  "ascii_graphic c \<longleftrightarrow> 33 \<le> byte_val c \<and> byte_val c \<le> 126"

definition echo_name :: "string \<Rightarrow> string" where
  "echo_name n = map (\<lambda>b. if ascii_graphic b then b else CHR ''?'') n"

definition report_line :: "ref_result \<Rightarrow> string" where
  "report_line r = (case r of RefOk n \<Rightarrow> ''ok '' @ echo_name n | RefNg n why \<Rightarrow> ''ng '' @ echo_name n @ '' '' @ why)"

definition report_lines :: "string + unit \<Rightarrow> ref_result list \<Rightarrow> string list" where
  "report_lines unpack results =
     (case unpack of Inr _ \<Rightarrow> ''unpack ok'' | Inl m \<Rightarrow> ''unpack '' @ m) # map report_line results"

definition write_report_status :: "pktio \<Rightarrow> string + unit \<Rightarrow> ref_result list \<Rightarrow> receive_caps \<Rightarrow> string \<Rightarrow> string res" where
  "write_report_status io unpack results caps w =
     (case fold_res (w_text io) (report_lines unpack results) [] of
        Inl e \<Rightarrow> Inl e
      | Inr b \<Rightarrow>
          (let body = w_flush io b
           in if rc_side_band_64k caps then Inr (w_flush io (band_data io body w))
              else Inr (w_flush io (w @ body))))"

section \<open>The sections before a pack\<close>

definition section_of :: "pktio \<Rightarrow> string \<Rightarrow> string list \<Rightarrow> string \<Rightarrow> string res" where
  "section_of io title lines w =
     (case fold_res (w_text io) (title # lines) w of Inl e \<Rightarrow> Inl e | Inr w' \<Rightarrow> Inr (w_delim io w'))"

definition ack_lines :: "string list \<Rightarrow> string list" where
  "ack_lines acks = (if acks = [] then [''NAK''] else map (\<lambda>a. ''ACK '' @ a) acks)"

definition prelude_sections ::
  "pktio \<Rightarrow> (string \<times> string) list \<Rightarrow> string list \<Rightarrow> string list \<Rightarrow> string list \<Rightarrow> string \<Rightarrow> (string \<times> bool) res" where
  "prelude_sections io wanted_refs shallow unshallow uris w =
     (case (if shallow \<noteq> [] \<or> unshallow \<noteq> []
            then section_of io ''shallow-info'' (map (\<lambda>s. ''shallow '' @ s) shallow @ map (\<lambda>u. ''unshallow '' @ u) unshallow) w
            else Inr w) of Inl e \<Rightarrow> Inl e | Inr w1 \<Rightarrow>
      case (if wanted_refs \<noteq> [] then section_of io ''wanted-refs'' (map (\<lambda>(i, n). i @ '' '' @ n) wanted_refs) w1 else Inr w1) of
        Inl e \<Rightarrow> Inl e | Inr w2 \<Rightarrow>
      case (if uris \<noteq> [] then section_of io ''packfile-uris'' uris w2 else Inr w2) of Inl e \<Rightarrow> Inl e | Inr w3 \<Rightarrow>
      case w_text io ''packfile'' w3 of Inl e \<Rightarrow> Inl e | Inr w4 \<Rightarrow> Inr (w4, True))"

definition write_fetch_prelude ::
  "pktio \<Rightarrow> fetch_args \<Rightarrow> string list \<Rightarrow> (string \<times> string) list \<Rightarrow> string list \<Rightarrow> string list \<Rightarrow> string list \<Rightarrow> string
     \<Rightarrow> (string \<times> bool) res" where
  "write_fetch_prelude io args acks wanted_refs shallow unshallow uris w =
     (let ready = fa_done args \<or> fa_haves args = [] \<or> length (fa_haves args) \<le> length acks
      in if fa_haves args \<noteq> [] \<and> \<not> fa_done args
         then (case fold_res (w_text io) (''acknowledgments'' # ack_lines acks) w of
                 Inl e \<Rightarrow> Inl e
               | Inr w1 \<Rightarrow>
                   if \<not> ready then Inr (w_flush io w1, False)
                   else (case w_text io ''ready'' w1 of
                           Inl e \<Rightarrow> Inl e
                         | Inr w2 \<Rightarrow> prelude_sections io wanted_refs shallow unshallow uris (w_delim io w2)))
         else prelude_sections io wanted_refs shallow unshallow uris w)"

section \<open>What is written, as packets\<close>

definition text_pkt :: "string \<Rightarrow> pkt" where
  "text_pkt s = PData (if s \<noteq> [] \<and> last s = LF then s else s @ [LF])"

definition short :: "string \<Rightarrow> bool" where
  "short s \<longleftrightarrow> length s < MAX_PKT_DATA"

lemma w_data_pkt:
  "pktio_ok io \<Longrightarrow> b \<noteq> [] \<Longrightarrow> length b \<le> MAX_PKT_DATA \<Longrightarrow> w_data io b w = Inr (w @ pkt_bytes io (PData b))"
  unfolding pktio_ok_def w_data_def pkt_bytes_def by fastforce

lemma w_text_pkt: "pktio_ok io \<Longrightarrow> short s \<Longrightarrow> w_text io s w = Inr (w @ pkt_bytes io (text_pkt s))"
  using w_data_pkt [of io s w] w_data_pkt [of io "s @ [LF]" w] by (auto simp: w_text_def text_pkt_def short_def)

lemma w_line_pkt:
  "pktio_ok io \<Longrightarrow> l \<noteq> [] \<Longrightarrow> length l \<le> MAX_PKT_DATA \<Longrightarrow> w_line io l w = w @ pkt_bytes io (PData l)"
  by (simp add: w_line_def w_data_pkt)

lemma w_texts_pkts:
  "pktio_ok io \<Longrightarrow> \<forall>s \<in> set ss. short s \<Longrightarrow> fold_res (w_text io) ss w = Inr (w @ pkts_bytes io (map text_pkt ss))"
  by (induction ss arbitrary: w) (simp_all add: w_text_pkt)

lemma w_lines_pkts:
  "pktio_ok io \<Longrightarrow> \<forall>l \<in> set ls. l \<noteq> [] \<and> length l \<le> MAX_PKT_DATA \<Longrightarrow> fold (w_line io) ls w = w @ pkts_bytes io (map PData ls)"
  by (induction ls arbitrary: w) (simp_all add: w_line_pkt)

lemma text_pkt_sane: "short s \<Longrightarrow> pkt_sane (text_pkt s)"
  by (auto simp: text_pkt_def pkt_sane_def short_def)

lemma band_data_pkts:
  assumes "pktio_ok io"
  shows "band_data io b w = w @ pkts_bytes io (map (\<lambda>c. PData (CHR 0x01 # c)) (chunks MAX_BAND_DATA b))"
proof -
  have one: "pk_band io 1 c = pkt_bytes io (PData (CHR 0x01 # c))" if "length c \<le> MAX_BAND_DATA" for c
  proof -
    have "char_of (1 :: nat) = CHR 0x01" by code_simp
    then have "pk_data io (CHR 0x01 # c) = Inr (pk_band io 1 c)" using assms that unfolding pktio_ok_def by metis
    then show ?thesis by (simp add: pkt_bytes_def)
  qed
  have run: "\<forall>c \<in> set cs. length c \<le> MAX_BAND_DATA \<Longrightarrow>
      fold (\<lambda>c w. w @ pk_band io 1 c) cs w = w @ pkts_bytes io (map (\<lambda>c. PData (CHR 0x01 # c)) cs)" for cs w
    by (induction cs arbitrary: w) (simp_all add: one [simplified])
  have "\<forall>c \<in> set (chunks MAX_BAND_DATA b). length c \<le> MAX_BAND_DATA" using chunks_bounds by blast
  from run [OF this] show ?thesis by (simp add: band_data_def)
qed

lemma band_pkts_sane: "p \<in> set (map (\<lambda>c. PData (CHR 0x01 # c)) (chunks MAX_BAND_DATA b)) \<Longrightarrow> pkt_sane p"
  using chunks_bounds by (fastforce simp: pkt_sane_def MAX_PKT_DATA_def MAX_BAND_DATA_def)

end
