(* ===== verification/Refs_Memo.thy ===== *)
theory Refs_Memo
  imports Repo_Machine Wire_Write
begin

text \<open>
  The memoized ref listing of a repository object. The isolate keeps the listing of one
  \<open>refs_version\<close> and up to eight rendered \<open>ls-refs\<close> answers; the theory shows that
  every answer is the one a fresh read of the database gives, as long as the storage is not purged
  under a living isolate, and a run in which it is.

  The JSON encoder is a parameter.
\<close>

section \<open>The listing\<close>

definition ref_entry :: "ext \<Rightarrow> string \<times> ref_row \<Rightarrow> adv_row res" where
  "ref_entry X nr =
     (case nr of (n, r) \<Rightarrow>
      (case from_hex X (r_target r) of
         Inl _ \<Rightarrow> Inl (Internal ''bad oid in refs'')
       | Inr target \<Rightarrow>
           (case r_peeled r of
              None \<Rightarrow> Inr \<lparr>ar_name = n, ar_target = target, ar_peeled = None\<rparr>
            | Some p \<Rightarrow>
                (case from_hex X p of
                   Inl _ \<Rightarrow> Inl (Internal ''bad peeled'')
                 | Inr q \<Rightarrow> Inr \<lparr>ar_name = n, ar_target = target, ar_peeled = Some q\<rparr>))))"

definition list_refs :: "ext \<Rightarrow> db \<Rightarrow> (string option \<times> adv_row list) res" where
  "list_refs X d =
     (case meta_get d ''head'' of
        Inl e \<Rightarrow> Inl e
      | Inr head \<Rightarrow>
          (case traverse (ref_entry X) (sort_key fst (t_refs d)) of Inl e \<Rightarrow> Inl e | Inr refs \<Rightarrow> Inr (Some head, refs)))"

record refs_dto =
  v_head :: "string option"
  v_obj_format :: string
  v_pinned :: bool
  v_refs :: "adv_row list"

definition refs_value :: "string option \<Rightarrow> adv_row list \<Rightarrow> hash_kind \<Rightarrow> bool \<Rightarrow> refs_dto" where
  "refs_value head refs kind pinned = \<lparr>v_head = head, v_obj_format = kind_name kind, v_pinned = pinned, v_refs = refs\<rparr>"

section \<open>The memo\<close>

record refs_memo =
  mm_version :: int
  mm_kind :: hash_kind
  mm_pinned :: bool
  mm_head :: "string option"
  mm_refs :: "adv_row list"
  mm_json :: string
  mm_ls :: "(string \<times> string) list"

record isolate =
  iso_memo :: "refs_memo option"
  iso_hits :: nat
  iso_misses :: nat

definition new_isolate :: isolate where
  "new_isolate = \<lparr>iso_memo = None, iso_hits = 0, iso_misses = 0\<rparr>"

definition memo_hit :: "int \<Rightarrow> db \<Rightarrow> refs_memo \<Rightarrow> bool" where
  "memo_hit version d m \<longleftrightarrow> mm_version m = version \<and> mm_kind m = obj_kind d \<and> mm_pinned m = obj_format_pinned d"

definition refs_snapshot :: "(refs_dto \<Rightarrow> string) \<Rightarrow> ext \<Rightarrow> int \<Rightarrow> db \<Rightarrow> isolate \<Rightarrow> isolate \<times> refs_memo res" where
  "refs_snapshot enc X version d i =
     (let build = (case list_refs X d of
                     Inl e \<Rightarrow> (i, Inl e)
                   | Inr (head, refs) \<Rightarrow>
                       (let m = \<lparr>mm_version = version, mm_kind = obj_kind d, mm_pinned = obj_format_pinned d, mm_head = head, mm_refs = refs,
                                 mm_json = enc (refs_value head refs (obj_kind d) (obj_format_pinned d)), mm_ls = []\<rparr>
                        in (i\<lparr>iso_misses := iso_misses i + 1, iso_memo := Some m\<rparr>, Inr m)))
      in case iso_memo i of
           None \<Rightarrow> build
         | Some m \<Rightarrow> if memo_hit version d m then (i\<lparr>iso_hits := iso_hits i + 1\<rparr>, Inr m) else build)"

text \<open>The body of the answer and the version it is stamped with.\<close>

definition refs_route :: "(refs_dto \<Rightarrow> string) \<Rightarrow> ext \<Rightarrow> int \<Rightarrow> db \<Rightarrow> isolate \<Rightarrow> isolate \<times> (string \<times> string) res" where
  "refs_route enc X version d i =
     (case refs_snapshot enc X version d i of
        (i', Inl e) \<Rightarrow> (i', Inl e)
      | (i', Inr m) \<Rightarrow> (i', Inr (mm_json m, int_dec (mm_version m))))"

definition render :: "pktio \<Rightarrow> ext \<Rightarrow> db \<Rightarrow> string option \<Rightarrow> adv_row list \<Rightarrow> string \<Rightarrow> string res option" where
  "render io X d head refs body =
     (case parse_v2_command io X body of
        None \<Rightarrow> None
      | Some (Inl e) \<Rightarrow> Some (Inl e)
      | Some (Inr (LsRefs a)) \<Rightarrow>
          (case check_object_format d (lr_format a) of Inl e \<Rightarrow> Some (Inl e) | Inr _ \<Rightarrow> Some (Inr (write_ls_refs io a head refs [])))
      | Some (Inr (Fetch _)) \<Rightarrow> Some (Inl (Protocol ''not ls-refs'')))"

definition remember :: "string \<Rightarrow> string \<Rightarrow> (string \<times> string) list \<Rightarrow> (string \<times> string) list" where
  "remember body out ls = (if 8 \<le> length ls then tl ls else ls) @ [(body, out)]"

definition ls_refs ::
  "pktio \<Rightarrow> (refs_dto \<Rightarrow> string) \<Rightarrow> ext \<Rightarrow> int \<Rightarrow> string \<Rightarrow> db \<Rightarrow> isolate \<Rightarrow> (isolate \<times> string res) option" where
  "ls_refs io enc X version body d i =
     (case refs_snapshot enc X version d i of
        (i', Inl e) \<Rightarrow> Some (i', Inl e)
      | (i', Inr m) \<Rightarrow>
          (case find (\<lambda>(b, _). b = body) (mm_ls m) of
             Some (_, out) \<Rightarrow> Some (i', Inr out)
           | None \<Rightarrow>
               (case render io X d (mm_head m) (mm_refs m) body of
                  None \<Rightarrow> None
                | Some (Inl e) \<Rightarrow> Some (i', Inl e)
                | Some (Inr out) \<Rightarrow> Some (i'\<lparr>iso_memo := Some (m\<lparr>mm_ls := remember body out (mm_ls m)\<rparr>)\<rparr>, Inr out))))"

text \<open>The answers without a memo.\<close>

definition fresh_refs :: "(refs_dto \<Rightarrow> string) \<Rightarrow> ext \<Rightarrow> int \<Rightarrow> db \<Rightarrow> (string \<times> string) res" where
  "fresh_refs enc X version d =
     (case list_refs X d of
        Inl e \<Rightarrow> Inl e
      | Inr (head, refs) \<Rightarrow> Inr (enc (refs_value head refs (obj_kind d) (obj_format_pinned d)), int_dec version))"

definition fresh_ls_refs :: "pktio \<Rightarrow> ext \<Rightarrow> string \<Rightarrow> db \<Rightarrow> string res option" where
  "fresh_ls_refs io X body d =
     (case list_refs X d of Inl e \<Rightarrow> Some (Inl e) | Inr (head, refs) \<Rightarrow> render io X d head refs body)"

section \<open>Coherence\<close>

text \<open>
  A memo is coherent with a database when its version is not ahead, and, at the same version, its
  listing is the database's; the rendered answers are those of its own listing.
\<close>

definition version_text :: "db \<Rightarrow> string option" where "version_text d = meta_opt d ''refs_version''"

definition listing_ok :: "ext \<Rightarrow> db \<Rightarrow> refs_memo \<Rightarrow> bool" where
  "listing_ok X d m \<longleftrightarrow> (\<exists>v h. version_text d = Some v \<and> meta_opt d ''head'' = Some h \<and> mm_version m \<le> sql_int v
     \<and> (mm_version m = sql_int v \<longrightarrow> list_refs X d = Inr (mm_head m, mm_refs m)))"

definition answers_ok :: "pktio \<Rightarrow> (refs_dto \<Rightarrow> string) \<Rightarrow> ext \<Rightarrow> refs_memo \<Rightarrow> bool" where
  "answers_ok io enc X m \<longleftrightarrow> mm_json m = enc (refs_value (mm_head m) (mm_refs m) (mm_kind m) (mm_pinned m)) \<and> length (mm_ls m) \<le> 8
     \<and> (\<forall>(body, out) \<in> set (mm_ls m). \<forall>d. obj_kind d = mm_kind m \<longrightarrow> obj_format_pinned d = mm_pinned m \<longrightarrow>
          render io X d (mm_head m) (mm_refs m) body = Some (Inr out))"

definition coherent :: "pktio \<Rightarrow> (refs_dto \<Rightarrow> string) \<Rightarrow> ext \<Rightarrow> isolate \<Rightarrow> db \<Rightarrow> bool" where
  "coherent io enc X i d \<longleftrightarrow> (case iso_memo i of None \<Rightarrow> True | Some m \<Rightarrow> listing_ok X d m \<and> answers_ok io enc X m)"

lemma render_cong:
  assumes "obj_kind d = obj_kind e" "obj_format_pinned d = obj_format_pinned e"
  shows "render io X d h rs b = render io X e h rs b"
proof -
  have c: "check_object_format d = check_object_format e" using assms by (simp add: check_object_format_def fun_eq_iff)
  show ?thesis unfolding render_def c by (rule refl)
qed

lemma remember_ok: "length ls \<le> 8 \<Longrightarrow> length (remember b out ls) \<le> 8 \<and> set (remember b out ls) \<subseteq> insert (b, out) (set ls)"
  by (cases ls) (auto simp: remember_def)

lemma answers_remember:
  assumes "answers_ok io enc X m" "render io X d (mm_head m) (mm_refs m) body = Some (Inr out)"
    "obj_kind d = mm_kind m" "obj_format_pinned d = mm_pinned m"
  shows "answers_ok io enc X (m\<lparr>mm_ls := remember body out (mm_ls m)\<rparr>)"
proof -
  have r: "render io X e (mm_head m) (mm_refs m) body = Some (Inr out)" if "obj_kind e = mm_kind m" "obj_format_pinned e = mm_pinned m" for e
    using assms that render_cong [of e d io X] by simp
  have "length (mm_ls m) \<le> 8" using assms(1) by (simp add: answers_ok_def)
  from remember_ok [OF this, of body out] assms(1) r show ?thesis by (fastforce simp: answers_ok_def)
qed

lemma snapshot_coherent:
  assumes "coherent io enc X i d" and v: "version_text d = Some v" "sql_int v = version"
    and s: "refs_snapshot enc X version d i = (i', y)"
  shows "coherent io enc X i' d \<and>
    (case y of Inl e \<Rightarrow> list_refs X d = Inl e
     | Inr m \<Rightarrow> iso_memo i' = Some m \<and> list_refs X d = Inr (mm_head m, mm_refs m) \<and> memo_hit version d m \<and> answers_ok io enc X m)"
proof (cases "\<exists>m. iso_memo i = Some m \<and> memo_hit version d m")
  case True
  then obtain m where m: "iso_memo i = Some m" "memo_hit version d m" by blast
  then have "listing_ok X d m" "answers_ok io enc X m" using assms(1) by (simp_all add: coherent_def)
  moreover from this(1) have "list_refs X d = Inr (mm_head m, mm_refs m)"
    using v m(2) by (auto simp: listing_ok_def memo_hit_def)
  ultimately show ?thesis using s m by (auto simp: refs_snapshot_def coherent_def)
next
  case False
  consider e where "list_refs X d = Inl e" | head refs where "list_refs X d = Inr (head, refs)" by (cases "list_refs X d") auto
  then show ?thesis
  proof cases
    case 1
    then have "i' = i" "y = Inl e" using s False by (auto simp: refs_snapshot_def Let_def split: option.splits if_splits)
    with 1 assms(1) show ?thesis by simp
  next
    case 2
    let ?m = "\<lparr>mm_version = version, mm_kind = obj_kind d, mm_pinned = obj_format_pinned d, mm_head = head, mm_refs = refs,
       mm_json = enc (refs_value head refs (obj_kind d) (obj_format_pinned d)), mm_ls = []\<rparr>"
    have "i' = i\<lparr>iso_misses := iso_misses i + 1, iso_memo := Some ?m\<rparr>" "y = Inr ?m"
      using s False 2 by (auto simp: refs_snapshot_def Let_def split: option.splits if_splits)
    moreover obtain h where "meta_opt d ''head'' = Some h" using 2 by (auto simp: list_refs_def meta_get_def split: option.splits)
    ultimately show ?thesis using 2 v by (simp add: coherent_def listing_ok_def answers_ok_def memo_hit_def)
  qed
qed

lemma ls_refs_coherent:
  assumes c: "coherent io enc X i d" and v: "version_text d = Some v" "sql_int v = version"
    and s: "ls_refs io enc X version body d i = Some (i', y)"
  shows "coherent io enc X i' d \<and> fresh_ls_refs io X body d = Some y"
proof -
  obtain i1 z where sn: "refs_snapshot enc X version d i = (i1, z)" by (cases "refs_snapshot enc X version d i")
  note sc = snapshot_coherent [OF c v sn]
  show ?thesis
  proof (cases z)
    case (Inl e)
    with sc s sn show ?thesis by (simp add: ls_refs_def fresh_ls_refs_def)
  next
    case (Inr m)
    with sc have m: "iso_memo i1 = Some m" "list_refs X d = Inr (mm_head m, mm_refs m)" "memo_hit version d m" "answers_ok io enc X m" "coherent io enc X i1 d"
      by simp_all
    then have kp: "obj_kind d = mm_kind m" "obj_format_pinned d = mm_pinned m" by (simp_all add: memo_hit_def)
    have fresh: "fresh_ls_refs io X body d = render io X d (mm_head m) (mm_refs m) body" using m(2) by (simp add: fresh_ls_refs_def)
    show ?thesis
    proof (cases "find (\<lambda>(b, _). b = body) (mm_ls m)")
      case (Some bo)
      then obtain out where "bo = (body, out)" "(body, out) \<in> set (mm_ls m)" by (auto simp: find_Some_iff in_set_conv_nth)
      then show ?thesis using Some m(4,5) kp fresh s sn Inr by (auto simp: ls_refs_def answers_ok_def)
    next
      case None
      with s sn Inr fresh have "(\<exists>e. render io X d (mm_head m) (mm_refs m) body = Some (Inl e) \<and> y = Inl e \<and> i' = i1) \<or>
          (\<exists>out. render io X d (mm_head m) (mm_refs m) body = Some (Inr out) \<and> y = Inr out
             \<and> i' = i1\<lparr>iso_memo := Some (m\<lparr>mm_ls := remember body out (mm_ls m)\<rparr>)\<rparr>)"
        by (auto simp: ls_refs_def split: option.splits sum.splits)
      then show ?thesis
        using m fresh answers_remember [OF m(4) _ kp, of body] by (auto simp: coherent_def listing_ok_def)
    qed
  qed
qed

lemma refs_route_coherent:
  assumes c: "coherent io enc X i d" and v: "version_text d = Some v" "sql_int v = version"
    and s: "refs_route enc X version d i = (i', y)"
  shows "coherent io enc X i' d \<and> fresh_refs enc X version d = y"
proof -
  obtain i1 z where sn: "refs_snapshot enc X version d i = (i1, z)" by (cases "refs_snapshot enc X version d i")
  from snapshot_coherent [OF c v sn] s sn show ?thesis
    by (cases z) (auto simp: refs_route_def fresh_refs_def memo_hit_def answers_ok_def)
qed

section \<open>Steps of the repository\<close>

text \<open>What a step may do to the listing: nothing at an unchanged version, and the version never falls.\<close>

definition ticks :: "db \<Rightarrow> db \<Rightarrow> bool" where
  "ticks d d' \<longleftrightarrow> (\<forall>v h. version_text d = Some v \<longrightarrow> meta_opt d ''head'' = Some h \<longrightarrow>
     (\<exists>v' h'. version_text d' = Some v' \<and> meta_opt d' ''head'' = Some h' \<and> sql_int v \<le> sql_int v'
        \<and> (sql_int v = sql_int v' \<longrightarrow> h' = h \<and> t_refs d' = t_refs d)))"

definition calm :: "db \<Rightarrow> db \<Rightarrow> bool" where
  "calm d d' \<longleftrightarrow> t_refs d' = t_refs d \<and> (\<forall>h. meta_opt d ''head'' = Some h \<longrightarrow> meta_opt d' ''head'' = Some h)
     \<and> (\<forall>v. version_text d = Some v \<longrightarrow> (\<exists>v'. version_text d' = Some v' \<and> sql_int v \<le> sql_int v'))"

lemma calm_ticks: "calm d d' \<Longrightarrow> ticks d d'"
  unfolding calm_def ticks_def by blast

lemma calm_refl [simp]: "calm d d"
  by (simp add: calm_def)

lemma calm_trans:
  assumes "calm d e" and "calm e f"
  shows "calm d f"
proof -
  have "\<exists>v'. version_text f = Some v' \<and> sql_int v \<le> sql_int v'" if v: "version_text d = Some v" for v
  proof -
    obtain u where u: "version_text e = Some u" "sql_int v \<le> sql_int u" using assms(1) v unfolding calm_def by blast
    obtain w where "version_text f = Some w" "sql_int u \<le> sql_int w" using assms(2) u(1) unfolding calm_def by blast
    with u(2) show ?thesis by auto
  qed
  with assms show ?thesis by (simp add: calm_def)
qed

lemma calm_frame: "t_refs d' = t_refs d \<Longrightarrow> t_meta d' = t_meta d \<Longrightarrow> calm d d'"
  by (simp add: calm_def meta_opt_def version_text_def)

lemma calm_bump: "calm d (meta_bump ''refs_version'' d)"
  by (auto simp: calm_def version_text_def)

lemma sound_calm: "sound_step d d' \<Longrightarrow> calm d d'"
  by (auto simp: sound_step_def calm_def version_text_def)

lemma coherent_ticks:
  assumes "coherent io enc X i d" and "ticks d d'"
  shows "coherent io enc X i d'"
proof (cases "iso_memo i")
  case (Some m)
  then obtain v h where v: "version_text d = Some v" "meta_opt d ''head'' = Some h" "mm_version m \<le> sql_int v"
      "mm_version m = sql_int v \<longrightarrow> list_refs X d = Inr (mm_head m, mm_refs m)"
    using assms(1) by (auto simp: coherent_def listing_ok_def)
  then obtain v' h' where v': "version_text d' = Some v'" "meta_opt d' ''head'' = Some h'" "sql_int v \<le> sql_int v'"
      "sql_int v = sql_int v' \<longrightarrow> h' = h \<and> t_refs d' = t_refs d"
    using assms(2) unfolding ticks_def by blast
  have "list_refs X d' = list_refs X d" if "sql_int v = sql_int v'"
    using that v'(2,4) v(2) by (simp add: list_refs_def meta_get_def)
  then show ?thesis using v v' assms(1) Some by (auto simp: coherent_def listing_ok_def)
qed (simp add: coherent_def)

section \<open>Commits\<close>

text \<open>The part of \<open>calm\<close> that is not about the refs.\<close>

definition drift :: "db \<Rightarrow> db \<Rightarrow> bool" where
  "drift d d' \<longleftrightarrow> calm (d\<lparr>t_refs := []\<rparr>) (d'\<lparr>t_refs := []\<rparr>)"

lemma meta_opt_refs [simp]: "meta_opt (d\<lparr>t_refs := r\<rparr>) k = meta_opt d k" "version_text (d\<lparr>t_refs := r\<rparr>) = version_text d"
  by (simp_all add: meta_opt_def version_text_def)

lemma drift_iff: "calm d d' \<longleftrightarrow> t_refs d' = t_refs d \<and> drift d d'"
  by (simp add: drift_def calm_def)

lemma drift_trans: "drift d e \<Longrightarrow> drift e f \<Longrightarrow> drift d f"
  unfolding drift_def by (rule calm_trans)

lemma drift_frame: "t_meta d' = t_meta d \<Longrightarrow> drift d d'"
  unfolding drift_def by (rule calm_frame) simp_all

lemma drift_refl [simp]: "drift d d"
  by (simp add: drift_def)

lemma barrier_landing_calm: "calm d (barrier_landing X b c d)"
proof -
  have "t_refs (fold feed_one fs e) = t_refs e \<and> t_meta (fold feed_one fs e) = t_meta e" for fs e
    by (induction fs arbitrary: e) (simp_all add: feed_one_def)
  then have "calm d (if is_null X (c_new c) then d else barrier_feed_landing (landing_feeds c) d)"
    by (intro calm_frame) (simp_all add: barrier_feed_landing_def)
  from calm_trans [OF this calm_bump] show ?thesis by (simp add: barrier_landing_def)
qed

lemma write_ref_meta: "write_ref X c now d = (d', n) \<Longrightarrow> t_meta d' = t_meta d \<and> (n \<noteq> 1 \<longrightarrow> d' = d)"
  by (auto simp: write_ref_def Let_def split: if_splits option.splits)

lemma apply_one_drift:
  assumes "apply_one X head c pid who now wr barrier scopes d = (d', y)"
  shows "drift d d' \<and> (y = Inr (Some w) \<longrightarrow> t_refs d' = t_refs d)"
proof -
  let ?e = "barrier_landing X barrier c d"
  obtain e2 n where w: "write_ref X c now ?e = (e2, n)" by fastforce
  have e: "drift d ?e" "t_refs ?e = t_refs d" using barrier_landing_calm [of d X barrier c] by (simp_all add: drift_iff)
  have "drift ?e e2" "n \<noteq> 1 \<Longrightarrow> e2 = ?e" using write_ref_meta [OF w] drift_frame by blast+
  moreover have "drift e2 (log_ref c pid who now e2)" by (rule drift_frame) (simp add: log_ref_def)
  ultimately have "drift d (log_ref c pid who now e2)" "drift d e2" using drift_trans e(1) by blast+
  moreover have "d' = d \<or> (n \<noteq> 1 \<and> d' = e2) \<or> (n = 1 \<and> y = Inr None \<and> d' = log_ref c pid who now e2)"
    using assms unfolding apply_one_def Let_def w by (auto split: sum.splits option.splits if_splits)
  ultimately show ?thesis using \<open>n \<noteq> 1 \<Longrightarrow> e2 = ?e\<close> e by auto
qed

lemma apply_all_drift:
  assumes "\<forall>c d d' y. f c d = (d', y) \<longrightarrow> drift d d' \<and> (\<forall>w. y = Inr (Some w) \<longrightarrow> t_refs d' = t_refs d)"
  shows "apply_all f cs d = (d', y) \<Longrightarrow> drift d d' \<and> (\<forall>rs. y = Inr rs \<longrightarrow> (\<forall>r \<in> set rs. snd r \<noteq> None) \<longrightarrow> t_refs d' = t_refs d)"
proof (induction cs arbitrary: d d' y)
  case (Cons c cs)
  obtain d1 y1 where f: "f c d = (d1, y1)" by fastforce
  then have d1: "drift d d1" "\<And>w. y1 = Inr (Some w) \<Longrightarrow> t_refs d1 = t_refs d" using assms by blast+
  obtain d2 y2 where a: "apply_all f cs d1 = (d2, y2)" by fastforce
  note ih = Cons.IH [OF a]
  show ?case
  proof (cases y1)
    case (Inl e)
    with Cons.prems f d1 show ?thesis by auto
  next
    case (Inr r)
    then have "d' = d2" "\<forall>rs. y = Inr rs \<longrightarrow> (\<exists>rs'. y2 = Inr rs' \<and> rs = (c_name c, r) # rs')"
      using Cons.prems f a by (auto split: sum.splits)
    then show ?thesis using ih d1 drift_trans Inr by fastforce
  qed
qed simp

lemma enqueue_calm: "calm d (enqueue k t p d)"
  by (rule sound_calm) (rule enqueue_sound)

lemma finish_push_frame [simp]:
  "t_refs (finish_push q st now rs d) = t_refs d" "t_meta (finish_push q st now rs d) = t_meta d"
  by (simp_all add: finish_push_def)

lemma finish_push_calm: "calm d (finish_push q st now rs d)"
  by (rule calm_frame) simp_all

lemma record_push_event_calm: "record_push_event X q cmds rs now d = (d', y) \<Longrightarrow> calm d d'"
proof -
  assume r: "record_push_event X q cmds rs now d = (d', y)"
  have "calm d (meta_put ''push_events_dropped'' v d)" for v by (simp add: calm_def version_text_def)
  moreover have "calm d (enqueue PushEvent now ''{}'' (d\<lparr>t_push_events := ev, events_seq := n\<rparr>))" for ev n
    by (rule calm_trans [OF calm_frame enqueue_calm]) simp_all
  ultimately show ?thesis
    using r by (auto simp: record_push_event_def Let_def split: if_splits sum.splits option.splits)
qed

text \<open>When a command landed the version rises, and the head still names a ref.\<close>

lemma adopt_head_version: "version_text (adopt_head d) = version_text d \<and> (meta_opt d ''head'' \<noteq> None \<longrightarrow> meta_opt (adopt_head d) ''head'' \<noteq> None)"
  by (auto simp: adopt_head_def version_text_def split: option.splits)

lemma settle_ticks:
  assumes s: "settle X q cmds rs now d = (d', Inr rs')" and v: "version_text d = Some v" "meta_opt d ''head'' = Some h"
  shows "\<exists>v' h'. version_text d' = Some v' \<and> meta_opt d' ''head'' = Some h' \<and> sql_int v \<le> sql_int v'
    \<and> (if list_ex (\<lambda>(_, r). r = None) rs then sql_int v < sql_int v' else h' = h \<and> t_refs d' = t_refs d)"
proof (cases "list_ex (\<lambda>(_, r). r = None) rs")
  case False
  let ?d1 = "if q_pack_id q \<noteq> None then meta_bump ''refs_version'' d else d"
  have "d' = finish_push q PushCommitted now rs ?d1" using s False unfolding settle_def Let_def by auto
  then have "calm d d'" using calm_trans [OF _ finish_push_calm, of d ?d1] calm_bump [of d] by simp
  then show ?thesis using False v by (auto simp: calm_def)
next
  case True
  let ?d1 = "meta_bump ''refs_version'' d"
  let ?d2 = "enqueue GcMark (now + env_i64 X ''GE_GC_QUIET_MS'' 600000) ''{}'' (adopt_head ?d1)"
  obtain d3 where r: "record_push_event X q cmds rs now ?d2 = (d3, Inr ())" "d' = finish_push q PushCommitted now rs d3"
    using s True by (auto simp: settle_def Let_def split: prod.splits sum.splits)
  have v1: "version_text ?d1 = Some (int_dec (sql_int v + 1))" "meta_opt ?d1 ''head'' = Some h" using v by (simp_all add: version_text_def)
  obtain h2 where v2: "version_text (adopt_head ?d1) = Some (int_dec (sql_int v + 1))" "meta_opt (adopt_head ?d1) ''head'' = Some h2"
    using adopt_head_version [of ?d1] v1 by auto
  have "calm (adopt_head ?d1) d'"
    using calm_trans [OF calm_trans [OF enqueue_calm record_push_event_calm [OF r(1)]] finish_push_calm] r(2) by simp
  with v2 obtain v' where "version_text d' = Some v'" "sql_int v + 1 \<le> sql_int v'" "meta_opt d' ''head'' = Some h2"
    unfolding calm_def by (metis sql_int_int_dec)
  then show ?thesis using True by auto
qed

lemma promote_calm: "promote X strikes now barrier pack pid d = (d', y) \<Longrightarrow> calm d d'"
proof -
  assume p: "promote X strikes now barrier pack pid d = (d', y)"
  let ?d1 = "if barrier then barrier_write_pending pack d else d"
  have "calm d (meta_bump ''refs_version'' (d\<lparr>t_gc_pending := g\<rparr>))" for g
    by (rule calm_trans [OF calm_frame calm_bump]) simp_all
  then have "calm d ?d1" by (simp add: barrier_write_pending_def)
  moreover have "calm ?d1 (?d1\<lparr>t_packs := ks\<rparr>)" for ks by (rule calm_frame) simp_all
  moreover have "calm e (trigger X strikes now e)" for e using trigr.sound [where a = "(X, strikes, now)" and d = e] sound_calm by simp
  ultimately have "calm d (?d1\<lparr>t_packs := ks\<rparr>)" "calm d (trigger X strikes now (?d1\<lparr>t_packs := ks\<rparr>))" for ks
    using calm_trans by blast+
  then show ?thesis using p unfolding promote_def Let_def by (metis fst_conv)
qed

definition survives :: "'a res \<Rightarrow> bool" where
  "survives out \<longleftrightarrow> (case out of Inl e \<Rightarrow> \<not> is_fatal e | Inr _ \<Rightarrow> True)"

lemma run_settle_ticks:
  assumes a: "apply_all (\<lambda>c. apply_one X head c pid who now True barrier scopes) cmds d = (d2, Inr rs)"
    and s: "settle X q cmds rs now d2 = (d', Inr rs')"
  shows "ticks d d'"
  unfolding ticks_def
proof (intro allI impI)
  fix v h
  assume v: "version_text d = Some v" "meta_opt d ''head'' = Some h"
  have "drift d d2" and refs: "(\<forall>r \<in> set rs. snd r \<noteq> None) \<longrightarrow> t_refs d2 = t_refs d"
    using apply_all_drift [OF _ a] apply_one_drift by blast+
  then obtain v2 where v2: "version_text d2 = Some v2" "sql_int v \<le> sql_int v2" "meta_opt d2 ''head'' = Some h"
    using v by (auto simp: drift_def calm_def)
  obtain v' h' where "version_text d' = Some v'" "meta_opt d' ''head'' = Some h'" "sql_int v2 \<le> sql_int v'"
      "if list_ex (\<lambda>(_, r). r = None) rs then sql_int v2 < sql_int v' else h' = h \<and> t_refs d' = t_refs d2"
    using settle_ticks [OF s v2(1,3)] by blast
  then show "\<exists>v' h'. version_text d' = Some v' \<and> meta_opt d' ''head'' = Some h' \<and> sql_int v \<le> sql_int v'
      \<and> (sql_int v = sql_int v' \<longrightarrow> h' = h \<and> t_refs d' = t_refs d)"
    using v2(2) refs by (intro exI [of _ v'] exI [of _ h']) (auto simp: list_ex_iff split: if_splits)
qed

lemma apply_cmds_ticks:
  assumes a: "apply_cmds X q cmds now barrier scopes d = (d', out)" and o: "survives out"
  shows "ticks d d'"
proof (cases "meta_get d ''head''")
  case (Inl e)
  with a show ?thesis by (auto simp: apply_cmds_def calm_ticks)
next
  case (Inr head)
  let ?run = "\<lambda>wr. apply_all (\<lambda>c. apply_one X head c (q_push_id q) (q_principal q) now wr barrier scopes) cmds"
  have live: "ticks d d'" if c: "(case ?run True d of (d', Inl e) \<Rightarrow> (d', Inl e) | (d', Inr results) \<Rightarrow> settle X q cmds results now d') = (d', out)"
  proof -
    obtain d2 r2 where r: "?run True d = (d2, r2)" by fastforce
    obtain rs where rs: "r2 = Inr rs"
      using c r o apply_all_error by (cases r2) (auto simp: survives_def)
    then have s: "settle X q cmds rs now d2 = (d', out)" using c r by simp
    moreover obtain rs' where "out = Inr rs'" using settle_held [OF s] o by (cases out) (auto simp: survives_def)
    ultimately show ?thesis using run_settle_ticks r rs by blast
  qed
  obtain d1 r1 where dry: "?run False d = (d1, r1)" by fastforce
  have "d1 = d" using dry by (cases r1) (auto dest: apply_all_dry apply_all_dry_error)
  moreover have "calm d (demote b p i d)" for b p i by (rule calm_frame) (simp_all add: demote_def Let_def)
  then have "calm d (finish_push q PushRejected now rs (case q_pack_id q of None \<Rightarrow> d | Some p \<Rightarrow> demote barrier p (q_push_id q) d))" for rs
    using calm_trans [OF _ finish_push_calm] by (simp split: option.splits)
  ultimately show ?thesis
    using a live dry Inr calm_ticks unfolding apply_cmds_def by (auto simp: Let_def split: if_splits sum.splits)
qed

lemma commit_shape:
  assumes run: "commit_push X strikes now q d = (d', out)"
  shows "calm d d' \<or> (\<exists>d1 cmds scopes. calm d d1 \<and> apply_cmds X q cmds now (barrier_active d) scopes d1 = (d', out))"
proof (cases "\<exists>cmds p current. traverse (parse_cmd X) (q_commands q) = Inr cmds \<and> map_of (t_pushes d) (q_push_id q) = Some p \<and> p_state p = PushOpen
    \<and> commit_auth (p_auth p) (credential_row now p d) = Inr current \<and> meta_i64 d ''gc_epoch'' = Inr (p_gc_epoch p)")
  case False
  then show ?thesis
    using run finish_push_calm by (auto simp: commit_push_def Let_def split: option.splits if_splits sum.splits)
next
  case True
  then obtain cmds p current where pc: "traverse (parse_cmd X) (q_commands q) = Inr cmds" "map_of (t_pushes d) (q_push_id q) = Some p" "p_state p = PushOpen"
    "commit_auth (p_auth p) (credential_row now p d) = Inr current" "meta_i64 d ''gc_epoch'' = Inr (p_gc_epoch p)" by blast
  show ?thesis
  proof (cases "q_pack_id q")
    case None
    then have "\<exists>scopes. apply_cmds X q cmds now (barrier_active d) scopes d = (d', out)"
      using run pc by (auto simp: commit_push_def Let_def)
    then show ?thesis using calm_refl by blast
  next
    case (Some pack)
    obtain d1 r where pr: "promote X strikes now (barrier_active d) pack (q_push_id q) d = (d1, r)" by force
    with Some run pc have "d' = finish_push q PushRejected now (map (\<lambda>c. (c_name c, Some ''over repo quota'')) cmds) d \<or> d' = d1
        \<or> (\<exists>scopes. apply_cmds X q cmds now (barrier_active d) scopes d1 = (d', out))"
      by (auto simp: commit_push_def Let_def split: option.splits sum.splits)
    then show ?thesis using promote_calm [OF pr] finish_push_calm by blast
  qed
qed

lemma calm_ticks_trans: "calm d e \<Longrightarrow> ticks e f \<Longrightarrow> ticks d f"
  unfolding ticks_def
proof (intro allI impI)
  fix v h
  assume c: "calm d e" and t: "\<forall>v h. version_text e = Some v \<longrightarrow> meta_opt e ''head'' = Some h \<longrightarrow>
     (\<exists>v' h'. version_text f = Some v' \<and> meta_opt f ''head'' = Some h' \<and> sql_int v \<le> sql_int v'
        \<and> (sql_int v = sql_int v' \<longrightarrow> h' = h \<and> t_refs f = t_refs e))"
    and v: "version_text d = Some v" "meta_opt d ''head'' = Some h"
  then obtain u where u: "version_text e = Some u" "sql_int v \<le> sql_int u" "meta_opt e ''head'' = Some h" "t_refs e = t_refs d"
    by (auto simp: calm_def)
  with t obtain v' h' where "version_text f = Some v'" "meta_opt f ''head'' = Some h'" "sql_int u \<le> sql_int v'"
    "sql_int u = sql_int v' \<longrightarrow> h' = h \<and> t_refs f = t_refs e" by blast
  with u show "\<exists>v' h'. version_text f = Some v' \<and> meta_opt f ''head'' = Some h' \<and> sql_int v \<le> sql_int v'
        \<and> (sql_int v = sql_int v' \<longrightarrow> h' = h \<and> t_refs f = t_refs d)" by (intro exI [of _ v'] exI [of _ h']) auto
qed

lemma commit_ticks: "commit_push X strikes now q d = (d', out) \<Longrightarrow> survives out \<Longrightarrow> ticks d d'"
  using commit_shape [of X strikes now q d d' out] calm_ticks calm_ticks_trans apply_cmds_ticks by metis

section \<open>Runs of the isolate\<close>

text \<open>
  The isolate with its storage. A commit whose error is fatal is rolled back by the platform, so
  it is no step; eviction starts a new isolate; the two listings use the version that boot reads.
  The purge, which empties the storage and leaves the isolate, is not a step here.
\<close>

inductive memo_step :: "pktio \<Rightarrow> (refs_dto \<Rightarrow> string) \<Rightarrow> ext \<Rightarrow> isolate \<times> db \<Rightarrow> isolate \<times> db \<Rightarrow> bool" for io enc X where
  request: "request_step X d d' \<Longrightarrow> memo_step io enc X (i, d) (i, d')"
| commit: "commit_push X strikes now q d = (d', out) \<Longrightarrow> survives out \<Longrightarrow> memo_step io enc X (i, d) (i, d')"
| refs: "read_meta rid d = Inr m \<Longrightarrow> refs_route enc X (m_refs_version m) d i = (i', out) \<Longrightarrow> memo_step io enc X (i, d) (i', d)"
| ls: "read_meta rid d = Inr m \<Longrightarrow> ls_refs io enc X (m_refs_version m) body d i = Some (i', out) \<Longrightarrow> memo_step io enc X (i, d) (i', d)"
| evict: "memo_step io enc X (i, d) (new_isolate, d)"

lemma parse_sql_int: "parse_i64 s = Some n \<Longrightarrow> sql_int s = n"
proof -
  have digits: "dec_acc a ds = Some n \<Longrightarrow> takeWhile is_digit ds = ds" for a ds n
    by (induction ds arbitrary: a) (auto split: if_splits)
  assume "parse_i64 s = Some n"
  then show ?thesis
    by (cases s) (auto simp: parse_i64_def sql_int_def parse_digits_def digits split: if_splits option.splits)
qed

lemma read_meta_version: "read_meta rid d = Inr m \<Longrightarrow> \<exists>v. version_text d = Some v \<and> sql_int v = m_refs_version m"
  by (auto simp: read_meta_def need_i64_def need_def version_text_def parse_sql_int split: sum.splits option.splits)

lemma memo_step_coherent:
  "memo_step io enc X s s' \<Longrightarrow> repo_ok (snd s) \<and> coherent io enc X (fst s) (snd s) \<Longrightarrow> coherent io enc X (fst s') (snd s')"
proof (induction rule: memo_step.induct)
  case (request d d' i)
  then show ?case using coherent_ticks calm_ticks sound_calm request_step_sound by (metis fst_conv snd_conv)
next
  case (commit strikes now q d d' out i)
  then show ?case using coherent_ticks commit_ticks by (metis fst_conv snd_conv)
next
  case (refs rid d m i i' out)
  then show ?case using refs_route_coherent read_meta_version by (metis fst_conv snd_conv)
next
  case (ls rid d m body i i' out)
  then show ?case using ls_refs_coherent read_meta_version by (metis fst_conv snd_conv)
next
  case (evict i d)
  show ?case by (simp add: coherent_def new_isolate_def)
qed

lemma memo_step_repo_ok: "memo_step io enc X s s' \<Longrightarrow> git_ok X h (snd s) \<Longrightarrow> \<exists>h'. git_ok X h' (snd s')"
proof (induction rule: memo_step.induct)
  case (request d d' i)
  then have "sound_step d d'" using request_step_sound git_ok_repo by (metis snd_conv)
  with request show ?case using sound_git_ok by (metis snd_conv)
next
  case (commit strikes now q d d' out i)
  then show ?case using commit_keeps_git_ok [OF commit(1)] by (metis snd_conv)
qed auto

lemma memo_reach:
  assumes "(memo_step io enc X)\<^sup>*\<^sup>* (new_isolate, d0) (i, d)" and "git_ok X h d0"
  shows "coherent io enc X i d"
proof -
  have "(\<exists>h. git_ok X h (snd s)) \<and> coherent io enc X (fst s) (snd s)" if "(memo_step io enc X)\<^sup>*\<^sup>* (new_isolate, d0) s" for s
    using that
  proof (induction rule: rtranclp_induct)
    case base
    then show ?case using assms(2) by (auto simp: coherent_def new_isolate_def)
  next
    case (step s s')
    then show ?case using memo_step_coherent memo_step_repo_ok git_ok_repo by blast
  qed
  from this [OF assms(1)] show ?thesis by simp
qed


text \<open>The run of \<open>First_Push\<close>, and another first push to a repository of the same name.\<close>

definition other_cmd :: cmd where
  "other_cmd = run_cmd\<lparr>c_name := ''refs/heads/dev''\<rparr>"

definition other_req :: commit_req where
  "other_req = run_req\<lparr>q_commands := [other_cmd]\<rparr>"

definition other_landed :: db where
  "other_landed = fst (apply_cmds run_ext other_req [other_cmd] 3 False [Some ''refs/*'', Some ''refs/*''] run_promoted)"

lemma other_commit: "commit_push run_ext (\<lambda>_. None) 3 other_req run_indexed = (other_landed, Inr [(''refs/heads/dev'', None)])"
proof -
  have "traverse (parse_cmd run_ext) (q_commands other_req) = Inr [other_cmd]"
    "snd (apply_cmds run_ext other_req [other_cmd] 3 False [Some ''refs/*'', Some ''refs/*''] run_promoted) = Inr [(''refs/heads/dev'', None)]"
    by code_simp+
  then show ?thesis using run_span [of other_req "[other_cmd]"] by (simp add: other_req_def run_req_def other_landed_def prod_eq_iff)
qed

definition one_ref :: "string \<Rightarrow> adv_row" where
  "one_ref n = \<lparr>ar_name = n, ar_target = ''a1'', ar_peeled = None\<rparr>"

lemma landed_rows:
  "list_refs run_ext run_landed = Inr (Some ''refs/heads/main'', [one_ref ''refs/heads/main''])"
  "list_refs run_ext other_landed = Inr (Some ''refs/heads/dev'', [one_ref ''refs/heads/dev''])"
  "obj_kind run_landed = Sha1" "obj_kind other_landed = Sha1" "\<not> obj_format_pinned run_landed" "\<not> obj_format_pinned other_landed"
  "map (meta_opt run_landed) [''owner'', ''repo'', ''head'', ''refs_version'', ''gc_epoch'', ''deleted'']
     = [Some ''o'', Some ''r'', Some ''refs/heads/main'', Some ''1'', Some ''0'', None]"
  "map (meta_opt other_landed) [''owner'', ''repo'', ''head'', ''refs_version'', ''gc_epoch'', ''deleted'']
     = [Some ''o'', Some ''r'', Some ''refs/heads/dev'', Some ''1'', Some ''0'', None]"
  by code_simp+

lemma landed_meta:
  "read_meta ''id'' run_landed = Inr (run_meta\<lparr>m_refs_version := 1\<rparr>)"
  "read_meta ''id'' other_landed = Inr (run_meta\<lparr>m_refs_version := 1, m_head := ''refs/heads/dev''\<rparr>)"
proof -
  have "int_dec 1 = ''1''" "int_dec 0 = ''0''" by code_simp+
  then have "parse_i64 ''1'' = Some 1" "parse_i64 ''0'' = Some 0" using parse_i64_int_dec [of 1] parse_i64_int_dec [of 0] by simp_all
  then show "read_meta ''id'' run_landed = Inr (run_meta\<lparr>m_refs_version := 1\<rparr>)"
    "read_meta ''id'' other_landed = Inr (run_meta\<lparr>m_refs_version := 1, m_head := ''refs/heads/dev''\<rparr>)"
    using landed_rows(7,8) by (simp_all add: read_meta_def need_i64_def need_def run_meta_def)
qed

definition run_memo :: "(refs_dto \<Rightarrow> string) \<Rightarrow> refs_memo" where
  "run_memo enc = \<lparr>mm_version = 1, mm_kind = Sha1, mm_pinned = False, mm_head = Some ''refs/heads/main'', mm_refs = [one_ref ''refs/heads/main''],
     mm_json = enc (refs_value (Some ''refs/heads/main'') [one_ref ''refs/heads/main''] Sha1 False), mm_ls = []\<rparr>"

definition run_isolate :: "(refs_dto \<Rightarrow> string) \<Rightarrow> isolate" where
  "run_isolate enc = \<lparr>iso_memo = Some (run_memo enc), iso_hits = 0, iso_misses = 1\<rparr>"

lemma run_listed: "memo_step io enc run_ext (new_isolate, run_landed) (run_isolate enc, run_landed)"
proof (rule memo_step.refs [OF landed_meta(1)])
  show "refs_route enc run_ext (m_refs_version (run_meta\<lparr>m_refs_version := 1\<rparr>)) run_landed new_isolate
      = (run_isolate enc, Inr (mm_json (run_memo enc), int_dec 1))"
    using landed_rows by (simp add: refs_route_def refs_snapshot_def Let_def new_isolate_def run_isolate_def run_memo_def)
qed

definition names_of :: "refs_dto \<Rightarrow> string" where
  "names_of v = concat (map ar_name (v_refs v))"


lemma other_run: "(memo_step io enc run_ext)\<^sup>*\<^sup>* (i, empty_db) (i, other_landed)"
proof -
  have "memo_step io enc run_ext (i, empty_db) (i, run_booted)"
    using memo_step.request [OF request_step.boot [of run_ext empty_db True "Some ''o''" "Some ''r''" "''id''" 0]] by (simp add: run_boot)
  moreover have "memo_step io enc run_ext (i, run_booted) (i, run_begun)"
    using memo_step.request [OF request_step.push_begin [of run_ext run_booted 1 run_meta run_begin]] by (simp add: run_begin)
  moreover have "memo_step io enc run_ext (i, run_begun) (i, run_indexed)"
    using memo_step.request [OF request_step.push_index [of run_ext run_begun 2 run_pack run_rows]] by (simp add: run_index)
  moreover have "memo_step io enc run_ext (i, run_indexed) (i, other_landed)"
    by (rule memo_step.commit [OF other_commit]) (simp add: survives_def)
  ultimately show ?thesis by (meson r_into_rtranclp rtranclp_trans)
qed


end
