(* ===== verification/Remote.thy ===== *)
theory Remote
  imports Wire_Write
begin

text \<open>
  The client half of protocol v2, from \<open>remote.rs\<close>, and the demultiplexer of the import job that
  reads a remote's pack (\<open>jobs/import.rs\<close>). A remote may be another repository of the same server,
  so the client's requests are read by the parsers of \<open>Wire_Command\<close> and it reads what
  \<open>Wire_Write\<close> writes.
\<close>

section \<open>The source address\<close>

definition trim_slashes :: "string \<Rightarrow> string" where
  "trim_slashes u = rev (dropWhile (\<lambda>c. c = CHR ''/'') (rev u))"

fun after_scheme :: "string \<Rightarrow> string" where
  "after_scheme [] = []"
| "after_scheme (c # cs) = (if starts_with ''://'' (c # cs) then drop 3 (c # cs) else after_scheme cs)"

definition url_host :: "string \<Rightarrow> string" where
  "url_host r = takeWhile (\<lambda>c. c \<noteq> CHR ''/'' \<and> c \<noteq> CHR '':'') r"

definition normalize :: "string \<Rightarrow> string res" where
  "normalize url =
     (let u0 = trim_slashes (trim url);
          u = (case strip_suffix ''.git'' u0 of Some v \<Rightarrow> v | None \<Rightarrow> u0)
      in if \<not> (starts_with ''https://'' u \<or> starts_with ''http://'' u) then Inl (Protocol ''import url needs http(s)'')
         else let r = after_scheme u
         in if CHR ''@'' \<in> set r \<or> CHR ''?'' \<in> set r \<or> CHR ''#'' \<in> set r
            then Inl (Protocol ''import url must be a bare repo path'')
            else if starts_with ''http://'' u \<and> url_host r \<notin> {''localhost'', ''127.0.0.1'', ''::1'', ''[::1]''}
            then Inl (Protocol ''http import urls must be loopback'')
            else Inr u)"

section \<open>Requests\<close>

definition request_head :: "string \<Rightarrow> hash_kind \<Rightarrow> string list" where
  "request_head cmd kind = [''command='' @ cmd, AGENT, ''object-format='' @ kind_name kind]"

definition v2_request :: "pktio \<Rightarrow> string \<Rightarrow> hash_kind \<Rightarrow> string list \<Rightarrow> string res" where
  "v2_request io cmd kind args =
     (case fold_res (w_text io) (request_head cmd kind) [] of
        Inl e \<Rightarrow> Inl e
      | Inr w \<Rightarrow> (case fold_res (w_text io) args (w_delim io w) of Inl e \<Rightarrow> Inl e | Inr w' \<Rightarrow> Inr (w_flush io w')))"

definition ls_refs_request :: "pktio \<Rightarrow> hash_kind \<Rightarrow> string res" where
  "ls_refs_request io kind = v2_request io ''ls-refs'' kind [''peel'', ''symrefs'']"

definition want_line :: "string \<Rightarrow> string" where
  "want_line w = ''want '' @ w"

definition fetch_request :: "pktio \<Rightarrow> string list \<Rightarrow> hash_kind \<Rightarrow> string res" where
  "fetch_request io wants kind = v2_request io ''fetch'' kind (map want_line wants @ [''done''])"

section \<open>The capability advertisement\<close>

record remote_caps =
  rk_ls :: bool
  rk_fetch :: bool
  rk_format :: "hash_kind option"

definition remote_format :: "pktio \<Rightarrow> string \<Rightarrow> hash_kind res" where
  "remote_format io f =
     (if f = ''sha256'' then Inr Sha256 else if f = ''sha1'' then Inr Sha1
      else Inl (Protocol (''remote object-format '' @ lossy io f @ '' unsupported'')))"

definition caps_body :: "pktio \<Rightarrow> remote_caps \<Rightarrow> pkt \<Rightarrow> error + (remote_caps + remote_caps)" where
  "caps_body io s p =
     (case p of
        PData d \<Rightarrow>
          (let s1 = s\<lparr>rk_ls := rk_ls s \<or> starts_with ''ls-refs'' d, rk_fetch := rk_fetch s \<or> starts_with ''fetch'' d\<rparr>
           in if rk_format s \<noteq> None then Inr (Inr s1)
              else (case strip_prefix ''object-format='' (chomp d) of
                      None \<Rightarrow> Inr (Inr s1)
                    | Some f \<Rightarrow> (case remote_format io f of Inl e \<Rightarrow> Inl e | Inr k \<Rightarrow> Inr (Inr (s1\<lparr>rk_format := Some k\<rparr>)))))
      | _ \<Rightarrow> Inr (Inr s))"

definition remote_capabilities :: "pktio \<Rightarrow> string \<Rightarrow> hash_kind res option" where
  "remote_capabilities io body =
     map_option (\<lambda>(_, y). case y of
         Inl e \<Rightarrow> Inl e
       | Inr s \<Rightarrow> if rk_ls s \<and> rk_fetch s then Inr (case rk_format s of Some k \<Rightarrow> k | None \<Rightarrow> Sha1)
                  else Inl (Protocol ''remote lacks protocol v2 ls-refs/fetch''))
       (pkt_loop io (caps_body io) Inr (push body (reader [])) \<lparr>rk_ls = False, rk_fetch = False, rk_format = None\<rparr>)"

section \<open>The refs of the remote\<close>

record advertised =
  ad_refs :: "adv_row list"
  ad_head :: "string option"

definition attr :: "pktio \<Rightarrow> ext \<Rightarrow> string \<Rightarrow> string option \<times> string option \<Rightarrow> string option \<times> string option" where
  "attr io X a hp =
     (case strip_prefix ''symref-target:'' a of
        Some t \<Rightarrow> (Some (lossy io t), snd hp)
      | None \<Rightarrow>
          (case strip_prefix ''peeled:'' a of
             Some p \<Rightarrow> (fst hp, case from_hex X p of Inr i \<Rightarrow> Some i | Inl _ \<Rightarrow> None)
           | None \<Rightarrow> hp))"

definition reply_line :: "pktio \<Rightarrow> ext \<Rightarrow> string \<Rightarrow> advertised \<Rightarrow> advertised" where
  "reply_line io X d adv =
     (case split_on (CHR '' '') (chomp d) of
        oid_hex # raw # attrs \<Rightarrow>
          (let name = lossy io raw; (head, peeled) = fold (attr io X) attrs (None, None)
           in if name = ''HEAD'' then adv\<lparr>ad_head := head\<rparr>
              else if \<not> starts_with ''refs/'' name then adv
              else (case from_hex X oid_hex of
                      Inl _ \<Rightarrow> adv
                    | Inr i \<Rightarrow> adv\<lparr>ad_refs := ad_refs adv @ [\<lparr>ar_name = name, ar_target = i, ar_peeled = peeled\<rparr>]\<rparr>))
      | _ \<Rightarrow> adv)"

definition reply_body :: "pktio \<Rightarrow> ext \<Rightarrow> advertised \<Rightarrow> pkt \<Rightarrow> error + (advertised + advertised)" where
  "reply_body io X adv p = (case p of PData d \<Rightarrow> Inr (Inr (reply_line io X d adv)) | _ \<Rightarrow> Inr (Inr adv))"

definition remote_refs :: "pktio \<Rightarrow> ext \<Rightarrow> string \<Rightarrow> advertised res option" where
  "remote_refs io X body =
     map_option snd (pkt_loop io (reply_body io X) Inr (push body (reader [])) \<lparr>ad_refs = [], ad_head = None\<rparr>)"

section \<open>The pack of the remote\<close>

text \<open>
  \<open>hold\<close> lags the hasher by one digest, so at the end it is the pack's trailer and the hasher saw
  all bytes before it. The bytes fed to the hasher are kept as text; \<open>total\<close> counts the pack.
  The upload of the collected bytes, which may fail on its own, is not part of the model.
\<close>

record demux =
  dx_in_pack :: bool
  dx_out :: string
  dx_hashed :: string
  dx_hold :: string
  dx_total :: nat

definition no_demux :: demux where
  "no_demux = \<lparr>dx_in_pack = False, dx_out = [], dx_hashed = [], dx_hold = [], dx_total = 0\<rparr>"

definition take_band1 :: "nat \<Rightarrow> string \<Rightarrow> demux \<Rightarrow> demux" where
  "take_band1 ds data s =
     (let hold = dx_hold s @ data; n = (if ds < length hold then length hold - ds else 0)
      in s\<lparr>dx_out := dx_out s @ data, dx_hashed := dx_hashed s @ take n hold, dx_hold := drop n hold,
          dx_total := dx_total s + length data\<rparr>)"

text \<open>A data packet is never empty. The flush that ends the pack ends the loop.\<close>

definition demux_body :: "pktio \<Rightarrow> nat \<Rightarrow> demux \<Rightarrow> pkt \<Rightarrow> error + (demux \<times> bool + demux)" where
  "demux_body io ds s p =
     (case p of
        PFlush \<Rightarrow> if dx_in_pack s then Inr (Inl (s, True)) else Inr (Inr s)
      | PData d \<Rightarrow>
          if \<not> dx_in_pack s then Inr (Inr (s\<lparr>dx_in_pack := (d = ''packfile'' @ [LF])\<rparr>))
          else (case d of
                  [] \<Rightarrow> Inr (Inr s)
                | band # data \<Rightarrow>
                    if byte_val band = 1 then Inr (Inr (take_band1 ds data s))
                    else if byte_val band = 2 then Inr (Inr s)
                    else Inl (Protocol (''remote ERR: '' @ lossy io data)))
      | _ \<Rightarrow> Inr (Inr s))"

text \<open>The stream is the list of chunks the platform will deliver, a read error with its text included.\<close>

fun read_pack :: "pktio \<Rightarrow> nat \<Rightarrow> (string + string) list \<Rightarrow> pkt_reader \<Rightarrow> demux \<Rightarrow> demux res option" where
  "read_pack io ds stream r s =
     (case pkt_loop io (demux_body io ds) (\<lambda>s. Inr (s, False)) r s of
        None \<Rightarrow> None
      | Some (_, Inl e) \<Rightarrow> Some (Inl e)
      | Some (r', Inr (s', fin)) \<Rightarrow>
          if fin then Some (Inr s')
          else (case stream of
                  [] \<Rightarrow> Some (Inl (Protocol ''remote stream ended mid-pack''))
                | Inl m # _ \<Rightarrow> Some (Inl (Internal (''remote stream: '' @ m)))
                | Inr c # cs \<Rightarrow> read_pack io ds cs (push c r') s'))"

declare read_pack.simps [simp del]

text \<open>The check of the trailer; \<open>hash\<close> is the object format's digest.\<close>

definition pack_intact :: "(string \<Rightarrow> string) \<Rightarrow> nat \<Rightarrow> demux \<Rightarrow> bool" where
  "pack_intact hash ds s \<longleftrightarrow> length (dx_hold s) = ds \<and> hash (dx_hashed s) = dx_hold s"

section \<open>Reading in pieces\<close>

lemma push_push [simp]: "push b (push a r) = push (a @ b) r"
  by (simp add: push_def)

lemma push_Nil [simp]: "push [] r = r"
  by (simp add: push_def)

lemma pos_push: "rd_pos r \<le> length (rd_buf r) \<Longrightarrow> rd_pos (push c r) \<le> length (rd_buf (push c r))"
  by (simp add: push_def)

lemma next_none: "next_pkt io r = (r', Inr None) \<Longrightarrow> r' = r"
  by (auto simp: next_pkt_def split: sum.splits option.splits)

lemma pkt_loop_resume:
  assumes "pktio_ok io" and ends: "\<forall>s p x. body s p = Inr (Inl x) \<longrightarrow> snd x"
  shows "pkt_loop io body (\<lambda>s. Inr (s, False)) r s = Some (r', Inr (s', False)) \<Longrightarrow> rd_pos r \<le> length (rd_buf r) \<Longrightarrow>
    pkt_loop io body (\<lambda>s. Inr (s, False)) (push c r) s = pkt_loop io body (\<lambda>s. Inr (s, False)) (push c r') s'
    \<and> rd_pos r' \<le> length (rd_buf r')"
proof (induction "length (rest r)" arbitrary: r s rule: less_induct)
  case less
  let ?L = "pkt_loop io body (\<lambda>s. Inr (s, False))"
  obtain r1 z where n: "next_pkt io r = (r1, z)" by (cases "next_pkt io r")
  show ?case
  proof (cases "z = Inr None")
    case True
    with less.prems(1) n next_none [of io r r1] have "r' = r" "s' = s" by (subst (asm) pkt_loop.simps, auto)+
    with less.prems(2) show ?thesis by simp
  next
    case False
    from less.prems(1) n False obtain p s1 where p: "z = Inr (Some p)" "body s p = Inr (Inr s1)" "?L r1 s1 = Some (r', Inr (s', False))"
      using ends by (subst (asm) pkt_loop.simps) (fastforce split: sum.splits option.splits)
    note np = next_push [OF assms(1) n False less.prems(2), of c]
    have e: "?L (push c r) s = ?L (push c r1) s1" using np p by (subst pkt_loop.simps) simp
    have "length (rest r1) < length (rest r)" using next_shorter [OF assms(1)] n p by blast
    from less.hyps [OF this p(3)] np show ?thesis unfolding e by blast
  qed
qed

text \<open>How the pack is cut into chunks does not matter.\<close>

definition pack_answer :: "(pkt_reader \<times> (error + demux \<times> bool)) option \<Rightarrow> demux res option" where
  "pack_answer y =
     (case y of
        None \<Rightarrow> None
      | Some (_, Inl e) \<Rightarrow> Some (Inl e)
      | Some (_, Inr (s, fin)) \<Rightarrow> if fin then Some (Inr s) else Some (Inl (Protocol ''remote stream ended mid-pack'')))"

lemma demux_ends: "\<forall>s p x. demux_body io ds s p = Inr (Inl x) \<longrightarrow> snd x"
  by (auto simp: demux_body_def split: pkt.splits list.splits if_splits)

lemma read_pack_chunks:
  assumes "pktio_ok io"
  shows "rd_pos r \<le> length (rd_buf r) \<Longrightarrow>
    read_pack io ds (map Inr cs) r s = pack_answer (pkt_loop io (demux_body io ds) (\<lambda>s. Inr (s, False)) (push (concat cs) r) s)"
proof (induction cs arbitrary: r s)
  case Nil
  then show ?case
    by (subst read_pack.simps) (auto simp: pack_answer_def split: option.splits sum.splits)
next
  case (Cons c cs)
  let ?L = "pkt_loop io (demux_body io ds) (\<lambda>s. Inr (s, False))"
  obtain r' y where l: "?L r s = Some (r', y)" using pkt_loop_total [OF assms] by fastforce
  show ?case
  proof (cases "\<exists>s'. y = Inr (s', False)")
    case True
    then obtain s' where y: "y = Inr (s', False)" by blast
    have res: "?L (push (concat (c # cs)) r) s = ?L (push (concat (c # cs)) r') s'" "rd_pos r' \<le> length (rd_buf r')"
      using pkt_loop_resume [OF assms demux_ends l [unfolded y] Cons.prems] by blast+
    have "read_pack io ds (map Inr (c # cs)) r s = read_pack io ds (map Inr cs) (push c r') s'"
      using l y by (subst read_pack.simps) simp
    also have "\<dots> = pack_answer (?L (push (concat cs) (push c r')) s')" by (rule Cons.IH [OF pos_push [OF res(2)]])
    finally show ?thesis using res(1) by simp
  next
    case False
    then have "?L (push (concat (c # cs)) r) s = Some (push (concat (c # cs)) r', y)"
      using pkt_loop_push [OF assms _ l Cons.prems] by fastforce
    with l False show ?thesis
      by (subst read_pack.simps) (auto simp: pack_answer_def split: sum.splits)
  qed
qed

section \<open>The pack a server sends\<close>

lemma take_band1_fold:
  assumes "s' = fold (take_band1 ds) cs s" and "length (dx_hold s) \<le> ds" and "length (dx_hold s) = ds \<or> dx_hashed s = []"
  shows "dx_out s' = dx_out s @ concat cs \<and> dx_hashed s' @ dx_hold s' = dx_hashed s @ dx_hold s @ concat cs
    \<and> length (dx_hold s') \<le> ds \<and> (length (dx_hold s') = ds \<or> dx_hashed s' = []) \<and> dx_in_pack s' = dx_in_pack s
    \<and> dx_total s' = dx_total s + length (concat cs)"
  using assms
proof (induction cs arbitrary: s)
  case (Cons c cs)
  let ?s = "take_band1 ds c s"
  have "length (dx_hold ?s) \<le> ds" "length (dx_hold ?s) = ds \<or> dx_hashed ?s = []"
    using Cons.prems(2,3) by (auto simp: take_band1_def Let_def)
  moreover have "dx_hashed ?s @ dx_hold ?s = dx_hashed s @ dx_hold s @ c"
    by (simp add: take_band1_def Let_def del: take_append drop_append)
  moreover have "dx_out ?s = dx_out s @ c" "dx_in_pack ?s = dx_in_pack s" "dx_total ?s = dx_total s + length c"
    by (simp_all add: take_band1_def Let_def)
  ultimately show ?case using Cons.IH [of ?s] Cons.prems(1) by simp
qed simp

lemma run_bands:
  "dx_in_pack s \<Longrightarrow> run_body (demux_body io ds) (map (\<lambda>c. PData (CHR 0x01 # c)) cs) s = Inr (fold (take_band1 ds) cs s)"
proof (induction cs arbitrary: s)
  case (Cons c cs)
  have "dx_in_pack (take_band1 ds c s)" using Cons.prems by (simp add: take_band1_def Let_def)
  with Cons show ?case by (simp add: demux_body_def byte_val_def)
qed simp

definition clone_args :: "string list \<Rightarrow> hash_kind \<Rightarrow> fetch_args" where
  "clone_args wants kind = (no_fetch kind)\<lparr>fa_wants := wants, fa_done := True\<rparr>"

lemma clone_prelude:
  "pktio_ok io \<Longrightarrow> write_fetch_prelude io (clone_args wants kind) [] [] [] [] [] [] = Inr (pkt_bytes io (text_pkt ''packfile''), True)"
  by (simp add: write_fetch_prelude_def prelude_sections_def clone_args_def no_fetch_def w_text_pkt short_def MAX_PKT_DATA_def)

lemma pack_stream:
  assumes "pktio_ok io"
  shows "w_flush io (band_data io pack (pkt_bytes io (text_pkt ''packfile''))) =
    pkts_bytes io (text_pkt ''packfile'' # map (\<lambda>c. PData (CHR 0x01 # c)) (chunks MAX_BAND_DATA pack) @ [PFlush])"
  by (simp add: w_flush_def band_data_pkts [OF assms] pkt_bytes_def)

lemma read_pack_stream:
  assumes ok: "pktio_ok io"
    and cs: "concat cs = w_flush io (band_data io pack (pkt_bytes io (text_pkt ''packfile''))) @ tail"
  shows "\<exists>s. read_pack io ds (map Inr cs) (reader []) no_demux = Some (Inr s) \<and> dx_out s = pack \<and> dx_total s = length pack \<and> dx_in_pack s
    \<and> dx_hashed s @ dx_hold s = pack \<and> length (dx_hold s) = min ds (length pack)"
proof -
  let ?ps = "text_pkt ''packfile'' # map (\<lambda>c. PData (CHR 0x01 # c)) (chunks MAX_BAND_DATA pack) @ [PFlush]"
  let ?s = "fold (take_band1 ds) (chunks MAX_BAND_DATA pack) (no_demux\<lparr>dx_in_pack := True\<rparr>)"
  have sane: "\<forall>p \<in> set ?ps. pkt_sane p"
    using band_pkts_sane [of _ pack] text_pkt_sane [of "''packfile''"] by (auto simp: short_def MAX_PKT_DATA_def pkt_sane_def)
  have facts: "dx_out ?s = pack" "dx_hashed ?s @ dx_hold ?s = pack" "length (dx_hold ?s) \<le> ds"
    "length (dx_hold ?s) = ds \<or> dx_hashed ?s = []" "dx_in_pack ?s" "dx_total ?s = length pack"
    using take_band1_fold [of ?s ds "chunks MAX_BAND_DATA pack" "no_demux\<lparr>dx_in_pack := True\<rparr>"] concat_chunks [of MAX_BAND_DATA pack]
    by (simp_all add: no_demux_def MAX_BAND_DATA_def)
  have "demux_body io ds no_demux (text_pkt ''packfile'') = Inr (Inr (no_demux\<lparr>dx_in_pack := True\<rparr>))"
    by (simp add: demux_body_def text_pkt_def no_demux_def)
  then have "run_body (demux_body io ds) ?ps no_demux = Inl (Inr (?s, True), [])"
    using facts(5) by (simp add: run_body_append run_bands) (simp add: demux_body_def)
  then have "\<exists>r. pkt_loop io (demux_body io ds) (\<lambda>s. Inr (s, False)) (reader (pkts_bytes io ?ps @ tail)) no_demux = Some (r, Inr (?s, True))"
    using pkt_loop_run [OF ok sane, where r = "reader (pkts_bytes io ?ps @ tail)" and t = tail and body = "demux_body io ds" and s = no_demux] by auto
  then have "read_pack io ds (map Inr cs) (reader []) no_demux = Some (Inr ?s)"
    using read_pack_chunks [OF ok, of "reader []" ds cs no_demux] cs pack_stream [OF ok, of pack]
    by (auto simp: pack_answer_def reader_push(2) simp del: pkts_bytes_simps) (auto simp: reader_def)
  moreover have "length (dx_hold ?s) = min ds (length pack)"
  proof -
    have "length (dx_hashed ?s) + length (dx_hold ?s) = length pack" using facts(2) by (metis length_append)
    then show ?thesis using facts(3,4) by auto
  qed
  ultimately show ?thesis using facts by blast
qed

section \<open>The requests a server reads\<close>

text \<open>The text of an object id: what \<open>from_hex\<close> reads back, without blanks, at most 64 bytes.\<close>

definition oid_text :: "ext \<Rightarrow> string \<Rightarrow> bool" where
  "oid_text X w \<longleftrightarrow> from_hex X w = Inr w \<and> w \<noteq> [] \<and> length w \<le> 64 \<and> LF \<notin> set w \<and> CHR '' '' \<notin> set w"

definition bare :: "string \<Rightarrow> bool" where
  "bare s \<longleftrightarrow> short s \<and> (s = [] \<or> last s \<noteq> LF)"

lemma chomp_line [simp]: "chomp (s @ [LF]) = s"
  by (simp add: chomp_def)

lemma text_pkt_bare: "bare s \<Longrightarrow> text_pkt s = PData (s @ [LF])"
  by (auto simp: text_pkt_def bare_def)

lemma request_bytes:
  assumes "pktio_ok io" "\<forall>s \<in> set (request_head cmd kind) \<union> set args. bare s"
  shows "v2_request io cmd kind args =
    Inr (pkts_bytes io (map text_pkt (request_head cmd kind) @ PDelim # map text_pkt args @ [PFlush]))"
proof -
  have h: "\<forall>s \<in> set (request_head cmd kind). short s" and a: "\<forall>s \<in> set args. short s" using assms(2) by (auto simp: bare_def)
  show ?thesis
    unfolding v2_request_def by (simp add: w_texts_pkts [OF assms(1) h] w_texts_pkts [OF assms(1) a] w_delim_def w_flush_def pkt_bytes_def)
qed

lemma run_v2_args:
  "v2_in_args s \<Longrightarrow> \<forall>a \<in> set args. bare a \<Longrightarrow>
    run_body (v2_body io) (map text_pkt args) s = Inr (s\<lparr>v2_args := v2_args s @ args\<rparr>)"
  by (induction args arbitrary: s) (simp_all add: v2_body_def text_pkt_bare v2_line_def)

lemma v2_text: "bare d \<Longrightarrow> v2_body io s (text_pkt d) = (case v2_line io s (d @ [LF]) of Inl e \<Rightarrow> Inl e | Inr s' \<Rightarrow> Inr (Inr s'))"
  by (simp add: v2_body_def text_pkt_bare)

lemma v2_head_lines:
  assumes "\<not> v2_in_args s"
  shows "v2_cmd s = None \<Longrightarrow> v2_line io s ((''command='' @ cmd) @ [LF]) = Inr (s\<lparr>v2_cmd := Some cmd\<rparr>)"
    and "v2_line io s (AGENT @ [LF]) = Inr s"
    and "v2_line io s ((''object-format='' @ kind_name kind) @ [LF]) = Inr (s\<lparr>v2_format := kind\<rparr>)"
proof -
  show "v2_cmd s = None \<Longrightarrow> v2_line io s ((''command='' @ cmd) @ [LF]) = Inr (s\<lparr>v2_cmd := Some cmd\<rparr>)"
    unfolding v2_line_def chomp_line Let_def strip_prefix_append using assms by simp
  have "strip_prefix ''command='' AGENT = None" "strip_prefix ''object-format='' AGENT = None" "starts_with ''agent='' AGENT"
    by code_simp+
  then show "v2_line io s (AGENT @ [LF]) = Inr s"
    unfolding v2_line_def chomp_line Let_def using assms by simp
  have "strip_prefix ''command='' (''object-format='' @ kind_name kind) = None"
    by (simp add: strip_prefix_def)
  moreover have "format_of io (kind_name kind) = Inr kind" by (cases kind) (simp_all add: format_of_def)
  ultimately show "v2_line io s ((''object-format='' @ kind_name kind) @ [LF]) = Inr (s\<lparr>v2_format := kind\<rparr>)"
    unfolding v2_line_def chomp_line Let_def strip_prefix_append using assms by simp
qed

lemma request_head_bare: "bare (''command='' @ cmd) \<Longrightarrow> s \<in> set (request_head cmd kind) \<Longrightarrow> bare s"
  by (cases kind) (auto simp: request_head_def bare_def short_def AGENT_def MAX_PKT_DATA_def)

lemma run_v2_head:
  assumes "bare (''command='' @ cmd)"
  shows "run_body (v2_body io) (map text_pkt (request_head cmd kind)) v2_start
    = Inr \<lparr>v2_cmd = Some cmd, v2_args = [], v2_in_args = False, v2_format = kind\<rparr>"
proof -
  have b: "bare AGENT" "bare (''object-format='' @ kind_name kind)"
    using request_head_bare [OF assms, of _ kind] by (simp_all add: request_head_def)
  show ?thesis
    unfolding request_head_def list.map run_body.simps v2_text [OF assms] v2_text [OF b(1)] v2_text [OF b(2)]
    by (simp add: v2_head_lines v2_start_def del: append_assoc append_Cons append.simps)
qed

lemma request_parsed:
  assumes ok: "pktio_ok io" and b: "\<forall>s \<in> set (request_head cmd kind) \<union> set args. bare s"
  shows "\<exists>req. v2_request io cmd kind args = Inr req
    \<and> parse_v2_command io X req = Some (v2_command io X \<lparr>v2_cmd = Some cmd, v2_args = args, v2_in_args = True, v2_format = kind\<rparr>)"
proof -
  let ?ps = "map text_pkt (request_head cmd kind) @ PDelim # map text_pkt args @ [PFlush]"
  have sane: "\<forall>p \<in> set ?ps. pkt_sane p" using b by (auto simp: bare_def intro: text_pkt_sane) (simp_all add: pkt_sane_def)
  have "bare (''command='' @ cmd)" using b by (simp add: request_head_def)
  note head = run_v2_head [OF this, of io kind]
  have "run_body (v2_body io) (map text_pkt args) \<lparr>v2_cmd = Some cmd, v2_args = [], v2_in_args = True, v2_format = kind\<rparr>
      = Inr \<lparr>v2_cmd = Some cmd, v2_args = args, v2_in_args = True, v2_format = kind\<rparr>"
    using b by (subst run_v2_args) auto
  then have "run_body (v2_body io) ?ps v2_start
      = Inl (Inr \<lparr>v2_cmd = Some cmd, v2_args = args, v2_in_args = True, v2_format = kind\<rparr>, [])"
    by (simp add: run_body_append head v2_body_def [of io _ PDelim] v2_body_def [of io _ PFlush])
  then have "\<exists>r. pkt_loop io (v2_body io) (\<lambda>_. Inl (Protocol ''truncated v2 command'')) (reader (pkts_bytes io ?ps)) v2_start
      = Some (r, Inr \<lparr>v2_cmd = Some cmd, v2_args = args, v2_in_args = True, v2_format = kind\<rparr>)"
    using pkt_loop_run [OF ok sane, where r = "reader (pkts_bytes io ?ps)" and t = "[]" and body = "v2_body io" and s = v2_start] by auto
  then show ?thesis
    using request_bytes [OF ok b] by (auto simp: parse_v2_command_def reader_push(2) simp del: pkts_bytes_simps)
qed

lemma fetch_wants:
  "\<forall>w \<in> set ws. oid_text X w \<Longrightarrow> fold_res (fetch_arg io X) (map want_line ws) f = Inr (f\<lparr>fa_wants := fa_wants f @ ws\<rparr>)"
proof (induction ws arbitrary: f)
  case (Cons w ws)
  have "fetch_arg io X (want_line w) f = Inr (f\<lparr>fa_wants := fa_wants f @ [w]\<rparr>)"
    using Cons.prems by (simp add: want_line_def fetch_arg_def with_oid_def wire_oid_def oid_text_def)
  with Cons show ?case by simp
qed simp

lemma fetch_request_read:
  assumes ok: "pktio_ok io" and w: "\<forall>w \<in> set wants. oid_text X w" "wants \<noteq> []"
  shows "\<exists>req. fetch_request io wants kind = Inr req \<and> parse_v2_command io X req = Some (Inr (Fetch (clone_args wants kind)))"
proof -
  let ?args = "map want_line wants @ [''done'']"
  have h: "\<forall>s \<in> set (request_head ''fetch'' kind). bare s"
    by (cases kind) (simp_all add: request_head_def bare_def short_def AGENT_def MAX_PKT_DATA_def)
  have "bare (want_line w)" if "w \<in> set wants" for w
  proof -
    have "oid_text X w" using that w(1) by blast
    then have "last w \<noteq> LF" "w \<noteq> []" "length w \<le> 64" unfolding oid_text_def by (metis last_in_set)+
    then show ?thesis by (simp add: want_line_def bare_def short_def MAX_PKT_DATA_def)
  qed
  with h have "\<forall>s \<in> set (request_head ''fetch'' kind) \<union> set ?args. bare s"
    by (auto simp: bare_def short_def MAX_PKT_DATA_def)
  moreover have "fetch_arg io X ''done'' g = Inr (g\<lparr>fa_done := True\<rparr>)" for g
    by (simp add: fetch_arg_def)
  then have "fold_res (fetch_arg io X) ?args (no_fetch kind) = Inr (clone_args wants kind)"
    using fetch_wants [OF w(1), of io "no_fetch kind"] by (simp add: fold_res_append clone_args_def no_fetch_def)
  then have "parse_fetch io X ?args kind = Inr (clone_args wants kind)"
    using w by (simp add: parse_fetch_def fetch_checks_def clone_args_def no_fetch_def)
  ultimately show ?thesis
    using request_parsed [OF ok, of "''fetch''" kind ?args X] by (simp add: fetch_request_def v2_command_def)
qed

section \<open>The refs a server lists\<close>

definition word_ok :: "pktio \<Rightarrow> string \<Rightarrow> bool" where
  "word_ok io n \<longleftrightarrow> n \<noteq> [] \<and> CHR '' '' \<notin> set n \<and> LF \<notin> set n \<and> lossy io n = n \<and> length n \<le> 60000"

definition row_ok :: "pktio \<Rightarrow> ext \<Rightarrow> adv_row \<Rightarrow> bool" where
  "row_ok io X r \<longleftrightarrow> word_ok io (ar_name r) \<and> starts_with ''refs/'' (ar_name r) \<and> oid_text X (ar_target r)
     \<and> (case ar_peeled r of None \<Rightarrow> True | Some p \<Rightarrow> oid_text X p)"

definition import_args :: "hash_kind \<Rightarrow> ls_refs_args" where
  "import_args kind = \<lparr>lr_symrefs = True, lr_peel = True, lr_unborn = False, lr_prefixes = [], lr_format = kind\<rparr>"

lemma wanted_import [simp]: "wanted (import_args kind) n" "lr_peel (import_args kind)" "lr_symrefs (import_args kind)"
  "\<not> lr_unborn (import_args kind)"
  by (simp_all add: wanted_def import_args_def)

definition ref_line :: "adv_row \<Rightarrow> string" where
  "ref_line r = ar_target r @ '' '' @ ar_name r @ peel_attr (import_args Sha1) r @ [LF]"

lemma peel_import: "peel_attr (import_args kind) r = peel_attr (import_args Sha1) r"
  by (simp add: peel_attr_def)

lemma ls_ref_lines_import: "ls_ref_lines (import_args kind) refs = map ref_line refs"
  by (simp add: ls_ref_lines_def ref_line_def peel_import [of kind])

lemma split_words:
  "CHR '' '' \<notin> set a \<Longrightarrow> split_on (CHR '' '') (a @ '' '' @ b) = a # split_on (CHR '' '') b"
  using split_on_append [of "CHR '' ''" a b] by simp

lemma peel_words:
  assumes "row_ok io X r" "CHR '' '' \<notin> set w" "LF \<notin> set w"
  shows "split_on (CHR '' '') (w @ peel_attr (import_args Sha1) r) = w # (case ar_peeled r of None \<Rightarrow> [] | Some p \<Rightarrow> [''peeled:'' @ p])"
proof (cases "ar_peeled r")
  case None
  with assms show ?thesis by (simp add: peel_attr_def split_on_no_sep)
next
  case (Some p)
  then have n: "CHR '' '' \<notin> set (''peeled:'' @ p)" using assms(1) by (simp add: row_ok_def oid_text_def)
  have "peel_attr (import_args Sha1) r = '' '' @ (''peeled:'' @ p)" by (simp add: peel_attr_def Some)
  then show ?thesis by (simp only: Some split_words [OF assms(2)] split_on_no_sep [OF n] option.case)
qed

lemma attr_words:
  "attr io X (''symref-target:'' @ t) hp = (Some (lossy io t), snd hp)"
  "oid_text X p \<Longrightarrow> attr io X (''peeled:'' @ p) hp = (fst hp, Some p)"
proof -
  show "attr io X (''symref-target:'' @ t) hp = (Some (lossy io t), snd hp)"
    unfolding attr_def strip_prefix_append by simp
  have "strip_prefix ''symref-target:'' (''peeled:'' @ p) = None" by (simp add: strip_prefix_def)
  then show "oid_text X p \<Longrightarrow> attr io X (''peeled:'' @ p) hp = (fst hp, Some p)"
    unfolding attr_def strip_prefix_append by (simp add: oid_text_def)
qed

lemma reply_ref_line:
  assumes "row_ok io X r"
  shows "reply_line io X (ref_line r) adv = adv\<lparr>ad_refs := ad_refs adv @ [r]\<rparr>"
proof -
  have w: "CHR '' '' \<notin> set (ar_name r)" "LF \<notin> set (ar_name r)" "CHR '' '' \<notin> set (ar_target r)"
    using assms by (auto simp: row_ok_def word_ok_def oid_text_def)
  have "chomp (ref_line r) = ar_target r @ '' '' @ (ar_name r @ peel_attr (import_args Sha1) r)"
    using chomp_line [of "ar_target r @ '' '' @ ar_name r @ peel_attr (import_args Sha1) r"] by (simp add: ref_line_def)
  then have sp: "split_on (CHR '' '') (chomp (ref_line r))
      = ar_target r # ar_name r # (case ar_peeled r of None \<Rightarrow> [] | Some p \<Rightarrow> [''peeled:'' @ p])"
    by (simp only: split_words [OF w(3)] peel_words [OF assms w(1,2)])
  have pe: "fold (attr io X) (case ar_peeled r of None \<Rightarrow> [] | Some p \<Rightarrow> [''peeled:'' @ p]) (None, None) = (None, ar_peeled r)"
    using assms by (cases "ar_peeled r") (simp_all add: row_ok_def attr_words(2) del: append.simps)
  have "lossy io (ar_name r) = ar_name r" "ar_name r \<noteq> ''HEAD''" "starts_with ''refs/'' (ar_name r)" "from_hex X (ar_target r) = Inr (ar_target r)"
    using assms by (auto simp: row_ok_def word_ok_def oid_text_def starts_with_def)
  then show ?thesis unfolding reply_line_def sp list.case pe by simp
qed

lemma reply_head_line:
  assumes "row_ok io X r" "ar_name r = h" "pktio_ok io"
  shows "reply_line io X (ar_target r @ '' HEAD'' @ ('' symref-target:'' @ h) @ peel_attr (import_args kind) r @ [LF]) adv = adv\<lparr>ad_head := Some h\<rparr>"
proof -
  let ?l = "ar_target r @ '' HEAD'' @ ('' symref-target:'' @ h) @ peel_attr (import_args kind) r @ [LF]"
  let ?more = "case ar_peeled r of None \<Rightarrow> [] | Some p \<Rightarrow> [''peeled:'' @ p]"
  have w: "CHR '' '' \<notin> set (''symref-target:'' @ h)" "LF \<notin> set (''symref-target:'' @ h)" "CHR '' '' \<notin> set (ar_target r)"
    "CHR '' '' \<notin> set ''HEAD''"
    using assms by (auto simp: row_ok_def word_ok_def oid_text_def)
  have "chomp ?l = ar_target r @ '' '' @ (''HEAD'' @ '' '' @ ((''symref-target:'' @ h) @ peel_attr (import_args Sha1) r))"
    using chomp_line [of "ar_target r @ '' HEAD'' @ ('' symref-target:'' @ h) @ peel_attr (import_args kind) r"] by (simp add: peel_import [of kind])
  then have sp: "split_on (CHR '' '') (chomp ?l) = ar_target r # ''HEAD'' # (''symref-target:'' @ h) # ?more"
    by (simp only: split_words [OF w(3)] split_words [OF w(4)] peel_words [OF assms(1) w(1,2)])
  obtain pe where fo: "fold (attr io X) ((''symref-target:'' @ h) # ?more) (None, None) = (Some h, pe)"
    using assms by (cases "ar_peeled r") (simp_all add: row_ok_def word_ok_def attr_words del: append.simps)
  have "\<forall>c \<in> set ''HEAD''. byte_val c < 128" by (simp add: byte_val_def)
  then have "lossy io ''HEAD'' = ''HEAD''" using assms(3) unfolding pktio_ok_def by blast
  then show ?thesis unfolding reply_line_def sp list.case fo by simp
qed

lemma line_fits: "row_ok io X r \<Longrightarrow> length (ref_line r) \<le> MAX_PKT_DATA \<and> ref_line r \<noteq> []"
  by (auto simp: row_ok_def word_ok_def oid_text_def ref_line_def peel_attr_def MAX_PKT_DATA_def split: option.splits)

lemma run_ref_lines:
  "\<forall>r \<in> set refs. row_ok io X r \<Longrightarrow>
    run_body (reply_body io X) (map PData (map ref_line refs)) adv = Inr (adv\<lparr>ad_refs := ad_refs adv @ refs\<rparr>)"
  by (induction refs arbitrary: adv) (simp_all add: reply_body_def reply_ref_line)

definition listed_head :: "string option \<Rightarrow> adv_row list \<Rightarrow> string option" where
  "listed_head head refs = Option.bind head (\<lambda>h. if find_ref h refs = None then None else Some h)"

lemma run_head_lines:
  assumes "pktio_ok io" and ok: "\<forall>r \<in> set refs. row_ok io X r" and adv: "ad_head adv = None"
  shows "run_body (reply_body io X) (map PData (ls_head_lines (import_args kind) head refs)) adv = Inr (adv\<lparr>ad_head := listed_head head refs\<rparr>)
    \<and> (\<forall>l \<in> set (ls_head_lines (import_args kind) head refs). l \<noteq> [] \<and> length l \<le> MAX_PKT_DATA)"
proof (cases "Option.bind head (\<lambda>h. find_ref h refs)")
  case None
  with adv show ?thesis by (cases head) (auto simp: ls_head_lines_def listed_head_def)
next
  case (Some r)
  then obtain h where h: "head = Some h" "find_ref h refs = Some r" by (cases head) auto
  then have "ar_name r = h" and r: "row_ok io X r"
    using ok nth_mem unfolding find_ref_def find_Some_iff by blast+
  moreover have "ls_head_lines (import_args kind) head refs = [ar_target r @ '' HEAD'' @ ('' symref-target:'' @ h) @ peel_attr (import_args kind) r @ [LF]]"
    by (simp add: ls_head_lines_def h)
  moreover have "length (peel_attr (import_args kind) r) \<le> 72" using r by (auto simp: peel_attr_def row_ok_def oid_text_def split: option.splits)
  ultimately show ?thesis
    using reply_head_line [OF r _ assms(1), of h kind adv] r h
    by (auto simp: reply_body_def listed_head_def row_ok_def word_ok_def oid_text_def MAX_PKT_DATA_def)
qed

lemma remote_reads_listing:
  assumes ok: "pktio_ok io" and rows: "\<forall>r \<in> set refs. row_ok io X r"
  shows "remote_refs io X (write_ls_refs io (import_args kind) head refs []) = Some (Inr \<lparr>ad_refs = refs, ad_head = listed_head head refs\<rparr>)"
proof -
  let ?a = "import_args kind" and ?adv = "\<lparr>ad_refs = [], ad_head = None\<rparr>"
  let ?h = "map PData (ls_head_lines ?a head refs)" and ?l = "map PData (map ref_line refs)"
  let ?ps = "?h @ ?l @ [PFlush]"
  have hd: "run_body (reply_body io X) ?h ?adv = Inr (?adv\<lparr>ad_head := listed_head head refs\<rparr>)"
    and fits: "\<forall>l \<in> set (ls_head_lines ?a head refs). l \<noteq> [] \<and> length l \<le> MAX_PKT_DATA"
    using run_head_lines [OF ok rows, of ?adv kind head] by simp_all
  have fits': "\<forall>l \<in> set (map ref_line refs). l \<noteq> [] \<and> length l \<le> MAX_PKT_DATA" using rows line_fits by auto
  have bytes: "write_ls_refs io ?a head refs [] = pkts_bytes io ?ps"
    unfolding write_ls_refs_def ls_ref_lines_import by (simp only: w_lines_pkts [OF ok fits] w_lines_pkts [OF ok fits'] w_flush_def) (simp add: pkt_bytes_def)
  have sane: "\<forall>p \<in> set ?ps. pkt_sane p" using fits fits' by (auto simp: pkt_sane_def)
  have run: "run_body (reply_body io X) ?ps ?adv = Inr \<lparr>ad_refs = refs, ad_head = listed_head head refs\<rparr>"
    by (simp only: run_body_append hd run_ref_lines [OF rows] sum.case) (simp add: reply_body_def)
  obtain r' where r': "pkt_loop io (reply_body io X) Inr (reader (pkts_bytes io ?ps)) ?adv
      = pkt_loop io (reply_body io X) Inr r' \<lparr>ad_refs = refs, ad_head = listed_head head refs\<rparr>" "rest r' = []"
    using pkt_loop_run [OF ok sane, where r = "reader (pkts_bytes io ?ps)" and t = "[]" and body = "reply_body io X" and s = ?adv]
    unfolding run by auto
  have "next_pkt io r' = (r', Inr None)" using ok r'(2) by (simp add: next_pkt_def pktio_ok_def)
  then have "pkt_loop io (reply_body io X) Inr (reader (pkts_bytes io ?ps)) ?adv = Some (r', Inr \<lparr>ad_refs = refs, ad_head = listed_head head refs\<rparr>)"
    unfolding r'(1) by (subst pkt_loop.simps) simp
  then show ?thesis unfolding remote_refs_def bytes by (simp add: reader_push(2) del: pkts_bytes_simps)
qed

end
