(* ===== verification/Wire_Claims.thy ===== *)
theory Wire_Claims
  imports Remote
begin

text \<open>
  What the wire layer promises: parsers that return on every input however the body arrives, that
  read back what a client writes, and writers whose output a client reads back.
\<close>

section \<open>Reading a push request\<close>

text \<open>The request a git client sends, packet by packet.\<close>

definition cmd_text :: "ref_command \<Rightarrow> string" where
  "cmd_text c = rcmd_old c @ '' '' @ rcmd_new c @ '' '' @ rcmd_name c"

definition shallow_text :: "string \<Rightarrow> string" where
  "shallow_text i = ''shallow '' @ i"

definition push_pkts :: "string list \<Rightarrow> ref_command list \<Rightarrow> string \<Rightarrow> pkt list" where
  "push_pkts shallow cmds caps =
     map (\<lambda>i. PData (shallow_text i)) shallow
     @ (case cmds of [] \<Rightarrow> [] | c # cs \<Rightarrow> PData (cmd_text c @ NUL # caps) # map (\<lambda>c. PData (cmd_text c)) cs) @ [PFlush]"

definition cmd_ok :: "ext \<Rightarrow> ref_command \<Rightarrow> bool" where
  "cmd_ok X c \<longleftrightarrow> oid_text X (rcmd_old c) \<and> oid_text X (rcmd_new c) \<and> rcmd_old c \<noteq> ''shallow'' \<and> NUL \<notin> set (rcmd_old c @ rcmd_new c @ rcmd_name c)
     \<and> rcmd_name c \<noteq> [] \<and> last (rcmd_name c) \<noteq> LF \<and> length (rcmd_name c) \<le> 60000"

lemma chomp_id: "d = [] \<or> last d \<noteq> LF \<Longrightarrow> chomp d = d"
  by (auto simp: chomp_def strip_suffix_Some_iff split: option.splits)

lemma not_shallow: "cmd_ok X c \<Longrightarrow> strip_prefix ''shallow '' (cmd_text c @ t) = None"
proof (rule ccontr)
  assume c: "cmd_ok X c" and "strip_prefix ''shallow '' (cmd_text c @ t) \<noteq> None"
  then obtain r where "cmd_text c @ t = ''shallow '' @ r" by (auto simp: strip_prefix_Some_iff)
  then have "split_once (CHR '' '') (rcmd_old c @ CHR '' '' # (rcmd_new c @ '' '' @ rcmd_name c @ t)) = split_once (CHR '' '') (''shallow'' @ CHR '' '' # r)"
    by (simp add: cmd_text_def)
  moreover have "CHR '' '' \<notin> set (rcmd_old c)" using c by (simp add: cmd_ok_def oid_text_def)
  moreover have "CHR '' '' \<notin> set ''shallow''" by simp
  note split_once_append [OF this, of r]
  ultimately have "rcmd_old c = ''shallow''" by (metis split_once_append option.inject prod.inject)
  with c show False by (simp add: cmd_ok_def)
qed

lemma command_read: "cmd_ok X c \<Longrightarrow> command_of io X (cmd_text c) = Inr c"
proof -
  assume c: "cmd_ok X c"
  then have "CHR '' '' \<notin> set (rcmd_old c)" "CHR '' '' \<notin> set (rcmd_new c)" by (simp_all add: cmd_ok_def oid_text_def)
  then have "split_once (CHR '' '') (cmd_text c) = Some (rcmd_old c, rcmd_new c @ '' '' @ rcmd_name c)"
    "split_once (CHR '' '') (rcmd_new c @ '' '' @ rcmd_name c) = Some (rcmd_new c, rcmd_name c)"
    by (simp_all add: cmd_text_def)
  with c show ?thesis by (simp add: command_of_def wire_oid_def cmd_ok_def oid_text_def)
qed

lemma first_line:
  assumes c: "cmd_ok X c" and "fold_res (set_cap io) (split_on (CHR '' '') cs) (rh_caps h) = Inr caps" and "cs = [] \<or> last cs \<noteq> LF"
  shows "header_line io X (h, True) (cmd_text c @ NUL # cs) = Inr (h\<lparr>rh_caps := caps, rh_commands := rh_commands h @ [c]\<rparr>, False)"
proof -
  have n: "NUL \<notin> set (cmd_text c)" using c by (auto simp: cmd_ok_def cmd_text_def)
  have ch: "chomp (cmd_text c @ NUL # cs) = cmd_text c @ NUL # cs" using assms(3) by (intro chomp_id) auto
  show ?thesis
    unfolding header_line_def ch by (simp add: not_shallow [OF c] split_once_append [OF n] assms(2) command_read [OF c])
qed

lemma later_line:
  assumes c: "cmd_ok X c"
  shows "header_line io X (h, f) (cmd_text c) = Inr (h\<lparr>rh_commands := rh_commands h @ [c]\<rparr>, False)"
proof -
  have n: "NUL \<notin> set (cmd_text c)" using c by (auto simp: cmd_ok_def cmd_text_def)
  have ch: "chomp (cmd_text c) = cmd_text c" using c by (intro chomp_id) (auto simp: cmd_text_def cmd_ok_def)
  show ?thesis
    unfolding header_line_def ch using not_shallow [OF c, of "[]"] by (simp add: split_once_no_sep [OF n] command_read [OF c])
qed

lemma shallow_line:
  assumes "oid_text X i"
  shows "header_line io X (h, f) (shallow_text i) = Inr (h\<lparr>rh_shallow := rh_shallow h @ [i]\<rparr>, f)"
proof -
  have "last i \<noteq> LF" using assms unfolding oid_text_def by (metis last_in_set)
  then have ch: "chomp (shallow_text i) = shallow_text i"
    using assms by (intro chomp_id) (auto simp: oid_text_def shallow_text_def)
  have "strip_prefix ''shallow '' (shallow_text i) = Some i" unfolding shallow_text_def by (rule strip_prefix_append)
  then show ?thesis unfolding header_line_def ch using assms by (simp add: wire_oid_def oid_text_def)
qed

lemma run_shallows:
  "\<forall>i \<in> set is. oid_text X i \<Longrightarrow>
    run_body (header_body io X) (map (\<lambda>i. PData (shallow_text i)) is) (h, f) = Inr (h\<lparr>rh_shallow := rh_shallow h @ is\<rparr>, f)"
  by (induction "is" arbitrary: h) (simp_all add: header_body_def shallow_line)

lemma run_commands:
  "\<forall>c \<in> set cs. cmd_ok X c \<Longrightarrow>
    run_body (header_body io X) (map (\<lambda>c. PData (cmd_text c)) cs) (h, False) = Inr (h\<lparr>rh_commands := rh_commands h @ cs\<rparr>, False)"
  by (induction cs arbitrary: h) (simp_all add: header_body_def later_line)

definition header_of :: "string list \<Rightarrow> ref_command list \<Rightarrow> receive_caps \<Rightarrow> receive_header" where
  "header_of shallow cmds rc = \<lparr>rh_commands = cmds, rh_caps = (if cmds = [] then no_caps else rc), rh_shallow = shallow\<rparr>"

definition push_ok :: "pktio \<Rightarrow> ext \<Rightarrow> string list \<Rightarrow> ref_command list \<Rightarrow> string \<Rightarrow> receive_caps \<Rightarrow> bool" where
  "push_ok io X shallow cmds caps rc \<longleftrightarrow> (\<forall>c \<in> set cmds. cmd_ok X c) \<and> (\<forall>i \<in> set shallow. oid_text X i)
     \<and> fold_res (set_cap io) (split_on (CHR '' '') caps) no_caps = Inr rc \<and> (caps = [] \<or> last caps \<noteq> LF) \<and> length caps \<le> 4000"

lemma cmd_text_fits: "cmd_ok X c \<Longrightarrow> cmd_text c \<noteq> [] \<and> length (cmd_text c) \<le> 60130"
  by (simp add: cmd_ok_def oid_text_def cmd_text_def)

lemma push_pkts_sane:
  assumes "push_ok io X shallow cmds caps rc"
  shows "\<forall>p \<in> set (push_pkts shallow cmds caps). pkt_sane p"
proof -
  have "\<forall>i \<in> set shallow. pkt_sane (PData (shallow_text i))"
    using assms by (fastforce simp: push_ok_def oid_text_def pkt_sane_def shallow_text_def MAX_PKT_DATA_def)
  moreover have "\<forall>c \<in> set cmds. pkt_sane (PData (cmd_text c)) \<and> pkt_sane (PData (cmd_text c @ NUL # caps))"
    using assms cmd_text_fits by (fastforce simp: push_ok_def pkt_sane_def MAX_PKT_DATA_def)
  moreover have "pkt_sane PFlush" by (simp add: pkt_sane_def)
  ultimately show ?thesis by (cases cmds) (simp_all add: push_pkts_def ball_Un)
qed

lemma run_push_pkts:
  assumes "push_ok io X shallow cmds caps rc"
  shows "run_body (header_body io X) (push_pkts shallow cmds caps) (no_header, True) = Inl (Inr (Some (header_of shallow cmds rc)), [])"
proof -
  let ?h = "no_header\<lparr>rh_shallow := shallow\<rparr>"
  have sh: "run_body (header_body io X) (map (\<lambda>i. PData (shallow_text i)) shallow) (no_header, True) = Inr (?h, True)"
    using assms by (subst run_shallows) (auto simp: push_ok_def no_header_def)
  show ?thesis
  proof (cases cmds)
    case Nil
    with sh show ?thesis by (simp add: push_pkts_def run_body_append header_of_def) (simp add: header_body_def no_header_def)
  next
    case (Cons c cs)
    have "header_body io X (?h, True) (PData (cmd_text c @ NUL # caps)) = Inr (Inr (?h\<lparr>rh_caps := rc, rh_commands := [c]\<rparr>, False))"
      using first_line [of X c io caps ?h rc] assms Cons by (simp add: header_body_def push_ok_def no_header_def)
    moreover have "\<forall>c \<in> set cs. cmd_ok X c" using assms Cons by (simp add: push_ok_def)
    ultimately show ?thesis
      using sh Cons by (simp add: push_pkts_def run_body_append run_commands header_of_def) (simp add: header_body_def no_header_def)
  qed
qed

lemma push_parsed:
  assumes ok: "pktio_ok io" and po: "push_ok io X shallow cmds caps rc"
  shows "\<exists>r. parse_receive_header io X (reader (pkts_bytes io (push_pkts shallow cmds caps) @ pack)) = Some (r, Inr (Some (header_of shallow cmds rc)))
    \<and> rest r = pack"
  using pkt_loop_run [OF ok, where ps = "push_pkts shallow cmds caps" and r = "reader (pkts_bytes io (push_pkts shallow cmds caps) @ pack)"
      and t = pack and body = "header_body io X" and s = "(no_header, True)" and eof = "\<lambda>_. Inr None"]
    push_pkts_sane [OF po] run_push_pkts [OF po]
  by (simp add: parse_receive_header_def)

lemma body_wrap_ok: "clean (body_wrap (map Inr cs))" "pending (body_wrap (map Inr cs)) = concat cs" "bd_buf (body_wrap s) = []"
  "\<forall>c \<in> set cs. length c \<le> k \<Longrightarrow> chunks_le k (body_wrap (map Inr cs))"
  by (auto simp: clean_def body_wrap_def pending_def chunks_le_def list_all_iff comp_def)

text \<open>
  C24. However the body of a push is cut into chunks, the commands, capabilities and shallow ids the
  client wrote are read back exactly, and what was read past the header together with what is still
  unread is exactly the pack, as long as the command section, one read step and one chunk fit the cap.
\<close>

theorem push_request_read:
  assumes "pktio_ok io" and "push_ok io X shallow cmds caps rc"
    and "concat cs = pkts_bytes io (push_pkts shallow cmds caps) @ pack" and "\<forall>c \<in> set cs. length c \<le> k"
    and "length (pkts_bytes io (push_pkts shallow cmds caps)) + FILL_STEP + k \<le> CMD_CAP"
  shows "\<exists>b' got. read_receive_header io X (body_wrap (map Inr cs)) [] = Some (b', Inr (header_of shallow cmds rc, got)) \<and> got @ pending b' = pack"
proof -
  let ?H = "pkts_bytes io (push_pkts shallow cmds caps)"
  obtain r where r: "parse_receive_header io X (reader (?H @ pack)) = Some (r, Inr (Some (header_of shallow cmds rc)))" "rest r = pack"
    using push_parsed [OF assms(1,2)] by blast
  have "\<not> over_cap io X k (?H @ pack)"
  proof
    assume "over_cap io X k (?H @ pack)"
    then obtain seen more more' r' where s: "?H @ pack = seen @ more @ more'" "parse_receive_header io X (reader seen) = Some (r', Inr None)"
        "CMD_CAP < length (seen @ more)" "length more \<le> FILL_STEP + k"
      unfolding over_cap_def by blast
    then have "length ?H \<le> length seen" using assms(5) by simp
    then obtain t where "seen = ?H @ t" using s(1) by (metis append_eq_append_conv_if append_take_drop_id)
    then show False using s(2) push_parsed [OF assms(1,2), of t] by auto
  qed
  then show ?thesis
    using read_header_chunks [OF assms(1) body_wrap_ok(1), of k cs X "[]" r] r assms(3) body_wrap_ok(2,3,4) assms(4)
    by (auto simp: header_answer_def)
qed

definition demo_id :: string where "demo_id = replicate 40 (CHR ''a'')"
definition demo_push_cmd :: ref_command where
  "demo_push_cmd = \<lparr>rcmd_old = replicate 40 (CHR ''0''), rcmd_new = demo_id, rcmd_name = ''refs/heads/main''\<rparr>"

lemma demo_oid: "oid_text plain_ext demo_id" "oid_text plain_ext (replicate 40 (CHR ''0''))"
  by (auto simp: oid_text_def demo_id_def plain_ext_def)

lemma demo_cap: "fold_res (set_cap git_pktio) (split_on (CHR '' '') ''atomic'') no_caps = Inr (no_caps\<lparr>rc_atomic := True\<rparr>)"
  by (simp add: set_cap_def)

lemma demo_cmd_ok: "cmd_ok plain_ext demo_push_cmd"
proof -
  have "length (replicate 40 (CHR ''0'')) \<noteq> length ''shallow''" by simp
  then have "replicate 40 (CHR ''0'') \<noteq> ''shallow''" by metis
  then show ?thesis using demo_oid by (simp add: cmd_ok_def demo_push_cmd_def demo_id_def)
qed

lemma demo_push_ok: "push_ok git_pktio plain_ext [] [demo_push_cmd] ''atomic'' (no_caps\<lparr>rc_atomic := True\<rparr>)"
  unfolding push_ok_def demo_cap using demo_cmd_ok by simp

lemma demo_push_bytes: "length (pkts_bytes git_pktio (push_pkts [] [demo_push_cmd] ''atomic'')) = 112"
  by (simp add: push_pkts_def cmd_text_def demo_push_cmd_def demo_id_def pkt_bytes_def git_pktio_def git_data_def)

theorem push_request_read_witness:
  "\<exists>b' got. read_receive_header git_pktio plain_ext (body_wrap (map Inr [pkts_bytes git_pktio (push_pkts [] [demo_push_cmd] ''atomic'') @ ''PA'', ''CK''])) []
     = Some (b', Inr (header_of [] [demo_push_cmd] (no_caps\<lparr>rc_atomic := True\<rparr>), got)) \<and> got @ pending b' = ''PACK''"
  by (rule push_request_read [OF git_pktio_ok demo_push_ok, where k = 114])
     (simp_all add: demo_push_bytes FILL_STEP_def CMD_CAP_def)

text \<open>
  C25. Reading the command section of a push returns on every body, whatever bytes arrive, however
  they are cut, and when the platform's stream fails.
\<close>

theorem receive_header_returns:
  assumes "pktio_ok io"
  shows "\<exists>b' out. read_receive_header io X b buf = Some (b', out)"
  by (rule read_header_total [OF assms])

theorem receive_header_returns_witness:
  "\<exists>b' out. read_receive_header git_pktio plain_ext (body_wrap [Inr ''00'', Inl Gone]) [] = Some (b', out)"
  by (rule receive_header_returns [OF git_pktio_ok])

text \<open>
  C26. The cap on the command section counts what the read brought with it: a push whose command
  section is complete and small is refused when it arrives in one piece longer than the cap.
\<close>

theorem small_header_refused:
  assumes "pktio_ok io" and "parse_receive_header io X (reader header) = Some (r, Inr (Some h))" and "CMD_CAP < length (header @ pack)"
  shows "\<exists>b'. read_receive_header io X (body_wrap [Inr (header @ pack)]) [] = Some (b', Inl (Protocol ''receive header > 1 MiB''))"
proof -
  have "parse_receive_header io X (reader []) = Some (reader [], Inr None)"
    unfolding parse_receive_header_def using assms(1)
    by (subst pkt_loop.simps) (simp add: next_pkt_def pktio_ok_def)
  moreover have "fill FILL_STEP (body_wrap [Inr (header @ pack)])
      = (\<lparr>bd_stream = [], bd_buf = header @ pack, bd_eof = False, bd_total = sat64 (length (header @ pack))\<rparr>, Inr True)"
    using assms(3) by (subst fill.simps, subst fill.simps) (simp add: body_wrap_def FILL_STEP_def CMD_CAP_def)
  moreover have "header @ pack \<noteq> []" using assms(3) by auto
  ultimately show ?thesis
    using assms(3) by (subst read_receive_header.simps) (simp add: reader_push Let_def)
qed

theorem small_header_refused_witness:
  "\<exists>b'. read_receive_header git_pktio plain_ext
     (body_wrap [Inr (pkts_bytes git_pktio (push_pkts [] [demo_push_cmd] ''atomic'') @ replicate CMD_CAP (CHR ''x''))]) []
   = Some (b', Inl (Protocol ''receive header > 1 MiB''))"
proof -
  obtain r where "parse_receive_header git_pktio plain_ext (reader (pkts_bytes git_pktio (push_pkts [] [demo_push_cmd] ''atomic'')))
      = Some (r, Inr (Some (header_of [] [demo_push_cmd] (no_caps\<lparr>rc_atomic := True\<rparr>))))"
    using push_parsed [OF git_pktio_ok demo_push_ok, of "[]"] by auto
  from small_header_refused [OF git_pktio_ok this] show ?thesis by (simp add: demo_push_bytes)
qed

section \<open>Commands of protocol v2\<close>

text \<open>
  C27. A protocol v2 request is answered on every body with an error or a command in range: at most
  32 ref prefixes; ids that the hash accepted; ref names that are not empty; a depth from 1 to the
  32-bit maximum; a time that fits 64 signed bits; one kind of shallow cut; and something wanted.
\<close>

theorem v2_command_sound:
  assumes "pktio_ok io"
  shows "\<exists>y. parse_v2_command io X body = Some y \<and>
     (case y of
        Inl _ \<Rightarrow> True
      | Inr (LsRefs a) \<Rightarrow> length (lr_prefixes a) \<le> 32
      | Inr (Fetch f) \<Rightarrow> fetch_fits X f \<and> \<not> (fa_deepen f \<noteq> None \<and> (fa_deepen_since f \<noteq> None \<or> fa_deepen_not f \<noteq> []))
          \<and> \<not> (fa_deepen_since f \<noteq> None \<and> fa_deepen_not f \<noteq> []) \<and> (fa_wants f \<noteq> [] \<or> fa_want_refs f \<noteq> []))"
proof -
  have cmd: "case v2_command io X s of
        Inl _ \<Rightarrow> True
      | Inr (LsRefs a) \<Rightarrow> length (lr_prefixes a) \<le> 32
      | Inr (Fetch f) \<Rightarrow> fetch_fits X f \<and> \<not> (fa_deepen f \<noteq> None \<and> (fa_deepen_since f \<noteq> None \<or> fa_deepen_not f \<noteq> []))
          \<and> \<not> (fa_deepen_since f \<noteq> None \<and> fa_deepen_not f \<noteq> []) \<and> (fa_wants f \<noteq> [] \<or> fa_want_refs f \<noteq> [])" for s
    using prefixes_bound [of io "v2_args s" "v2_format s"] parse_fetch_fits [of io X "v2_args s" "v2_format s"]
    by (auto simp: v2_command_def fetch_checks_def split: sum.splits if_splits)
  obtain r y where "pkt_loop io (v2_body io) (\<lambda>_. Inl (Protocol ''truncated v2 command'')) (push body (reader [])) v2_start = Some (r, y)"
    using pkt_loop_total [OF assms] by fastforce
  with cmd show ?thesis by (cases y) (simp_all add: parse_v2_command_def)
qed

theorem v2_command_sound_witness: "\<exists>y. parse_v2_command git_pktio plain_ext ''0000'' = Some y"
  using v2_command_sound [OF git_pktio_ok, of plain_ext "''0000''"] by blast

section \<open>The report of a push\<close>

text \<open>How a client reads a report: the lines up to the flush, and the verdict on a ref.\<close>

definition lines_body :: "string list \<Rightarrow> pkt \<Rightarrow> error + (string list + string list)" where
  "lines_body ls p = (case p of PFlush \<Rightarrow> Inr (Inl ls) | PData d \<Rightarrow> Inr (Inr (ls @ [chomp d])) | _ \<Rightarrow> Inr (Inr ls))"

definition client_lines :: "pktio \<Rightarrow> string \<Rightarrow> string list res option" where
  "client_lines io b = map_option snd (pkt_loop io lines_body Inr (reader b) [])"

definition verdict :: "string \<Rightarrow> (string \<times> string option) option" where
  "verdict l =
     (case strip_prefix ''ok '' l of
        Some n \<Rightarrow> Some (n, None)
      | None \<Rightarrow> Option.bind (strip_prefix ''ng '' l) (\<lambda>r. map_option (\<lambda>(n, why). (n, Some why)) (split_once (CHR '' '') r)))"

primrec result_of :: "ref_result \<Rightarrow> string \<times> string option" where
  "result_of (RefOk n) = (n, None)"
| "result_of (RefNg n why) = (n, Some why)"

lemma graphic_special [simp]: "\<not> ascii_graphic (CHR '' '')" "\<not> ascii_graphic LF" "ascii_graphic (CHR ''?'')"
  by (simp_all add: ascii_graphic_def byte_val_def)

lemma echo_graphic: "c \<in> set (echo_name n) \<Longrightarrow> ascii_graphic c"
  by (auto simp: echo_name_def split: if_splits)

lemma echo_id: "\<forall>c \<in> set n. ascii_graphic c \<Longrightarrow> echo_name n = n"
  by (auto simp: echo_name_def intro: map_idI)

lemma verdict_line: "verdict (report_line r) = Some (apfst echo_name (result_of r))"
proof (cases r)
  case (RefOk n)
  have "strip_prefix ''ok '' (''ok '' @ echo_name n) = Some (echo_name n)" by (rule strip_prefix_append)
  then show ?thesis using RefOk by (simp only: verdict_def report_line_def ref_result.case option.case) simp
next
  case (RefNg n why)
  have "CHR '' '' \<notin> set (echo_name n)" using echo_graphic graphic_special(1) by blast
  then have "split_once (CHR '' '') (echo_name n @ '' '' @ why) = Some (echo_name n, why)" by simp
  moreover have "strip_prefix ''ok '' (''ng '' @ s) = None" for s by (simp add: strip_prefix_def)
  moreover have "strip_prefix ''ng '' (''ng '' @ s) = Some s" for s by (rule strip_prefix_append)
  ultimately show ?thesis using RefNg by (simp only: verdict_def report_line_def ref_result.case option.case bind.bind_lunit) simp
qed

lemma run_lines: "\<forall>l \<in> set ls. bare l \<Longrightarrow> run_body lines_body (map text_pkt ls) acc = Inr (acc @ ls)"
  by (induction ls arbitrary: acc) (simp_all add: lines_body_def text_pkt_bare)

lemma client_reads:
  assumes ok: "pktio_ok io" and b: "\<forall>l \<in> set ls. bare l"
  shows "client_lines io (pkts_bytes io (map text_pkt ls @ [PFlush])) = Some (Inr ls)"
proof -
  have "\<forall>p \<in> set (map text_pkt ls @ [PFlush]). pkt_sane p" using b text_pkt_sane by (auto simp: bare_def) (simp add: pkt_sane_def)
  moreover have "run_body lines_body (map text_pkt ls @ [PFlush]) [] = Inl (Inr ls, [])"
    by (simp add: run_body_append run_lines [OF b]) (simp add: lines_body_def)
  ultimately show ?thesis
    using pkt_loop_run [OF ok, where ps = "map text_pkt ls @ [PFlush]" and r = "reader (pkts_bytes io (map text_pkt ls @ [PFlush]))"
        and t = "[]" and body = lines_body and s = "[]" and eof = Inr]
    by (auto simp: client_lines_def simp del: pkts_bytes_simps)
qed

text \<open>
  C28. A ref name cannot inject text into the report of a push: whatever bytes the names hold, the
  client reads exactly one verdict per command, in order, each on the command's own name with the
  bytes that are not printable replaced, and with the server's reason. Under the sideband the report
  is the concatenation of its band-1 packets.
\<close>

theorem report_not_injectable:
  assumes ok: "pktio_ok io" and lines: "\<forall>l \<in> set (report_lines unpack results). bare l"
  shows "\<exists>w body ls. write_report_status io unpack results caps [] = Inr w
     \<and> w = (if rc_side_band_64k caps
            then pkts_bytes io (map (\<lambda>c. PData (CHR 0x01 # c)) (chunks MAX_BAND_DATA body) @ [PFlush]) else body @ pk_flush io)
     \<and> concat (chunks MAX_BAND_DATA body) = body
     \<and> client_lines io body = Some (Inr ls)
     \<and> map verdict (tl ls) = map (\<lambda>r. Some (apfst echo_name (result_of r))) results"
proof -
  let ?ls = "report_lines unpack results" and ?body = "pkts_bytes io (map text_pkt (report_lines unpack results) @ [PFlush])"
  have "\<forall>l \<in> set ?ls. short l" using lines by (simp add: bare_def)
  then have "fold_res (w_text io) ?ls [] = Inr (pkts_bytes io (map text_pkt ?ls))" using w_texts_pkts [OF ok, of ?ls "[]"] by simp
  then have "write_report_status io unpack results caps [] = Inr (if rc_side_band_64k caps
      then pkts_bytes io (map (\<lambda>c. PData (CHR 0x01 # c)) (chunks MAX_BAND_DATA ?body) @ [PFlush]) else ?body @ pk_flush io)"
    by (simp add: write_report_status_def w_flush_def band_data_pkts [OF ok] pkt_bytes_def)
  moreover have "map verdict (tl ?ls) = map (\<lambda>r. Some (apfst echo_name (result_of r))) results"
    by (simp add: report_lines_def verdict_line)
  ultimately show ?thesis
    using client_reads [OF ok lines] concat_chunks [of MAX_BAND_DATA ?body] by (auto simp: MAX_BAND_DATA_def simp del: pkts_bytes_simps)
qed

definition demo_hostile :: string where "demo_hostile = ''x'' @ [LF] @ ''ok refs/heads/main''"

lemma demo_echo: "echo_name demo_hostile = ''x?ok?refs/heads/main''"
  by (simp add: demo_hostile_def echo_name_def ascii_graphic_def byte_val_def)

lemma demo_report: "\<forall>l \<in> set (report_lines (Inr ()) [RefNg demo_hostile ''funny refname'']). bare l"
  by (simp add: report_lines_def report_line_def bare_def short_def MAX_PKT_DATA_def demo_echo)

theorem report_not_injectable_witness:
  "\<exists>w body ls. write_report_status git_pktio (Inr ()) [RefNg demo_hostile ''funny refname''] no_caps [] = Inr w
     \<and> w = body @ pk_flush git_pktio \<and> client_lines git_pktio body = Some (Inr ls)
     \<and> map verdict (tl ls) = [Some (''x?ok?refs/heads/main'', Some ''funny refname'')]"
proof -
  have "\<not> rc_side_band_64k no_caps" by (simp add: no_caps_def)
  moreover have "map (\<lambda>r. Some (apfst echo_name (result_of r))) [RefNg demo_hostile ''funny refname''] = [Some (''x?ok?refs/heads/main'', Some ''funny refname'')]"
    by (simp add: demo_echo)
  ultimately show ?thesis using report_not_injectable [OF git_pktio_ok demo_report, of no_caps] by metis
qed

section \<open>Importing from another server\<close>

lemma ls_refs_request_read:
  assumes "pktio_ok io"
  shows "\<exists>req. ls_refs_request io kind = Inr req \<and> parse_v2_command io X req = Some (Inr (LsRefs (import_args kind)))"
proof -
  have "bare (''command='' @ ''ls-refs'')" "bare ''peel''" "bare ''symrefs''" by (simp_all add: bare_def short_def MAX_PKT_DATA_def)
  then have "\<forall>s \<in> set (request_head ''ls-refs'' kind) \<union> set [''peel'', ''symrefs'']. bare s"
    using request_head_bare [of "''ls-refs''"] unfolding list.set by blast
  moreover have "parse_ls_refs io [''peel'', ''symrefs''] kind = Inr (import_args kind)"
    by (simp add: parse_ls_refs_def ls_refs_arg_def import_args_def)
  ultimately show ?thesis
    using request_parsed [OF assms, of "''ls-refs''" kind "[''peel'', ''symrefs'']" X] by (simp add: ls_refs_request_def v2_command_def)
qed

text \<open>
  C29. An import that lists the refs of a server of this kind sees them all: the client's request is
  read by the server as a request for every ref with peeled values and the target of HEAD, and the
  client reads the reply back to the same rows in the same order, with HEAD's target when it names a
  listed ref.
\<close>

theorem remote_listing_read_back:
  assumes "pktio_ok io" and "\<forall>r \<in> set refs. row_ok io X r"
  shows "\<exists>req a. ls_refs_request io kind = Inr req \<and> parse_v2_command io X req = Some (Inr (LsRefs a))
     \<and> remote_refs io X (write_ls_refs io a head refs []) = Some (Inr \<lparr>ad_refs = refs, ad_head = listed_head head refs\<rparr>)"
  using ls_refs_request_read [OF assms(1)] remote_reads_listing [OF assms] by blast

definition demo_row :: adv_row where
  "demo_row = \<lparr>ar_name = ''refs/heads/main'', ar_target = demo_id, ar_peeled = None\<rparr>"

lemma demo_row_ok: "row_ok git_pktio plain_ext demo_row"
  using demo_oid by (simp add: row_ok_def word_ok_def demo_row_def git_pktio_def starts_with_def)

theorem remote_listing_read_back_witness:
  "\<exists>req a. ls_refs_request git_pktio Sha1 = Inr req \<and> parse_v2_command git_pktio plain_ext req = Some (Inr (LsRefs a))
     \<and> remote_refs git_pktio plain_ext (write_ls_refs git_pktio a (Some ''refs/heads/main'') [demo_row] [])
       = Some (Inr \<lparr>ad_refs = [demo_row], ad_head = Some ''refs/heads/main''\<rparr>)"
proof -
  have "listed_head (Some ''refs/heads/main'') [demo_row] = Some ''refs/heads/main''"
    by (simp add: listed_head_def find_ref_def demo_row_def)
  then show ?thesis
    using remote_listing_read_back [OF git_pktio_ok, of "[demo_row]" plain_ext Sha1 "Some ''refs/heads/main''"] demo_row_ok by simp
qed



text \<open>
  C31. An accepted import address is a bare repository path: no credentials, query or fragment, and
  plain http only to localhost or 127.0.0.1. The host is cut at the first colon, so the IPv6 loopback
  addresses the code lists are never accepted.
\<close>

theorem import_url_confined:
  assumes "normalize url = Inr u"
  shows "CHR ''@'' \<notin> set (after_scheme u) \<and> CHR ''?'' \<notin> set (after_scheme u) \<and> CHR ''#'' \<notin> set (after_scheme u)
     \<and> (starts_with ''https://'' u \<or> starts_with ''http://'' u \<and> url_host (after_scheme u) \<in> {''localhost'', ''127.0.0.1''})"
proof -
  have "CHR '':'' \<notin> set (url_host r)" for r
    unfolding url_host_def by (auto dest: set_takeWhileD)
  then have "url_host r \<noteq> ''::1'' \<and> url_host r \<noteq> ''[::1]''" for r
    by (metis list.set_intros)
  then show ?thesis using assms unfolding normalize_def Let_def by (simp only: split: if_splits) blast+
qed

theorem import_url_confined_witness:
  "normalize ''http://127.0.0.1:8794/o/r.git/'' = Inr ''http://127.0.0.1:8794/o/r''
     \<and> url_host (after_scheme ''http://127.0.0.1:8794/o/r'') \<in> {''localhost'', ''127.0.0.1''}"
proof -
  have n: "normalize ''http://127.0.0.1:8794/o/r.git/'' = Inr ''http://127.0.0.1:8794/o/r''" by code_simp
  have "\<not> starts_with ''https://'' ''http://127.0.0.1:8794/o/r''" by (simp add: starts_with_def)
  then show ?thesis using n import_url_confined [OF n] by blast
qed

end
