(* ===== verification/Spec2Isabelle.thy ===== *)
theory Spec2Isabelle
  imports Responses Commit_Atomic Refs_Memo Wire_Claims
begin

text \<open>
  A verification development for git-edge, a git server that runs as an edge worker with one
  durable object per repository.
\<close>

end
